(* ===== verification/HL_Prelude.thy ===== *)
theory HL_Prelude
  imports Main "HOL-Library.Word" "HOL-Library.Multiset"
begin

text \<open>
  Shared vocabulary of the development: the machine types the Rust code uses, panics as values,
  the laws collections the component proofs are driven by, and the generic facts on lists,
  options and words the components share (\<open>Iterator::position\<close>, slot tables indexed by a byte).
\<close>

section \<open>Types and collections\<close>

type_synonym u8 = "8 word"
type_synonym u32 = "32 word"
type_synonym u64 = "64 word"
type_synonym u128 = "128 word"
type_synonym bytes = "u8 list"

named_theorems lib_laws \<open>definitions of the documented laws of third-party code\<close>
named_theorems step_defs \<open>unfolding rules of the event-loop steps\<close>
named_theorems slot_simps \<open>simplification rules for slot tables\<close>

text \<open>
  \<open>Panics\<close> is the outcome of an \<open>unwrap\<close> on an error, an out-of-range index or an
  \<open>unreachable!()\<close>; \<open>Returns\<close> carries the value of an expression that did not panic.
\<close>

datatype 'a outcome = Panics | Returns (returned: 'a)

fun and_then :: "'a outcome \<Rightarrow> ('a \<Rightarrow> 'b outcome) \<Rightarrow> 'b outcome" where
  "and_then Panics f = Panics"
| "and_then (Returns x) f = f x"

fun unwrap :: "'a option \<Rightarrow> 'a outcome" where
  "unwrap None = Panics"
| "unwrap (Some x) = Returns x"

lemma and_then_Returns_iff:
  "and_then x f = Returns y \<longleftrightarrow> (\<exists>a. x = Returns a \<and> f a = Returns y)"
  by (cases x) auto

lemma and_then_assoc: "and_then (and_then x f) g = and_then x (\<lambda>a. and_then (f a) g)"
  by (cases x) auto

lemma unwrap_Returns_iff [simp]: "unwrap x = Returns y \<longleftrightarrow> x = Some y"
  by (cases x) auto

lemma unwrap_Panics_iff [simp]: "unwrap x = Panics \<longleftrightarrow> x = None"
  by (cases x) auto

text \<open>\<open>Result::ok\<close>, \<open>Option::filter\<close> and \<open>Option::unwrap_or\<close> of the standard library.\<close>

fun result_ok :: "'e + 'a \<Rightarrow> 'a option" where
  "result_ok (Inl e) = None"
| "result_ok (Inr a) = Some a"

definition option_filter :: "('a \<Rightarrow> bool) \<Rightarrow> 'a option \<Rightarrow> 'a option" where
  "option_filter P x = (case x of None \<Rightarrow> None | Some a \<Rightarrow> (if P a then Some a else None))"

fun unwrap_or :: "'a option \<Rightarrow> 'a \<Rightarrow> 'a" where
  "unwrap_or None d = d"
| "unwrap_or (Some a) d = a"

lemma option_filter_Some_iff [simp]: "option_filter P x = Some a \<longleftrightarrow> x = Some a \<and> P a"
  by (auto simp: option_filter_def split: option.splits)

lemma option_filter_simps [simp]:
  "option_filter P None = None"
  "option_filter P (Some a) = (if P a then Some a else None)"
  by (simp_all add: option_filter_def)

section \<open>\<open>Iterator::position\<close>\<close>

fun position :: "('a \<Rightarrow> bool) \<Rightarrow> 'a list \<Rightarrow> nat option" where
  "position P [] = None"
| "position P (x # xs) = (if P x then Some 0 else map_option Suc (position P xs))"

lemma position_None_iff: "position P xs = None \<longleftrightarrow> (\<forall>x \<in> set xs. \<not> P x)"
  by (induction xs) auto

lemma position_Some_iff:
  "position P xs = Some i \<longleftrightarrow> i < length xs \<and> P (xs ! i) \<and> (\<forall>j < i. \<not> P (xs ! j))"
proof (induction xs arbitrary: i)
  case Nil
  then show ?case by simp
next
  case (Cons x xs)
  then show ?case by (cases i) (auto simp: All_less_Suc2)
qed

lemma position_SomeD:
  assumes "position P xs = Some i"
  shows "i < length xs" and "P (xs ! i)"
  using assms by (auto simp: position_Some_iff)

section \<open>Bytes as table indices\<close>

lemma unat_u8_less [simp]: "unat (i :: u8) < 256"
  using unsigned_less [of i, where 'a = nat] by simp

lemma unat_of_nat_u8 [simp]: "n < 256 \<Longrightarrow> unat (of_nat n :: u8) = n"
  by (simp add: unat_of_nat)

lemma nth_list_update_u8 [slot_simps]:
  "length xs = 256 \<Longrightarrow> (xs[unat (i :: u8) := v]) ! unat j = (if i = j then v else xs ! unat j)"
  by (simp add: nth_list_update word_unat_eq_iff)

text \<open>Indexing a fixed-size array, with the bounds check the compiler inserts.\<close>

definition array_get :: "'a list \<Rightarrow> nat \<Rightarrow> 'a outcome" where
  "array_get xs i = (if i < length xs then Returns (xs ! i) else Panics)"

definition array_set :: "'a list \<Rightarrow> nat \<Rightarrow> 'a \<Rightarrow> 'a list outcome" where
  "array_set xs i v = (if i < length xs then Returns (xs[i := v]) else Panics)"

lemma array_in_range [simp]:
  "i < length xs \<Longrightarrow> array_get xs i = Returns (xs ! i)"
  "i < length xs \<Longrightarrow> array_set xs i v = Returns (xs[i := v])"
  by (simp_all add: array_get_def array_set_def)

section \<open>The occupants of a slot table\<close>

text \<open>The values stored in the occupied slots of a table of options, as a multiset.\<close>

definition occupants :: "'a option list \<Rightarrow> 'a multiset" where
  "occupants xs = mset (List.map_filter id xs)"

lemma occupants_simps [simp]:
  "occupants [] = {#}"
  "occupants (None # xs) = occupants xs"
  "occupants (Some a # xs) = add_mset a (occupants xs)"
  by (simp_all add: occupants_def List.map_filter_simps)

lemma occupants_replicate_None [simp]: "occupants (replicate n None) = {#}"
  by (induction n) auto

lemma occupants_fill:
  "i < length xs \<Longrightarrow> xs ! i = None \<Longrightarrow> occupants (xs[i := Some a]) = add_mset a (occupants xs)"
proof (induction xs arbitrary: i)
  case Nil
  then show ?case by simp
next
  case (Cons x xs)
  then show ?case by (cases i; cases x) auto
qed

lemma occupants_take:
  "i < length xs \<Longrightarrow> xs ! i = Some a \<Longrightarrow> add_mset a (occupants (xs[i := None])) = occupants xs"
proof (induction xs arbitrary: i)
  case Nil
  then show ?case by simp
next
  case (Cons x xs)
  then show ?case by (cases i; cases x) (auto simp: add_mset_commute)
qed

lemma size_occupants_le: "size (occupants xs) \<le> length xs"
proof (induction xs)
  case (Cons x xs)
  then show ?case by (cases x) auto
qed simp

section \<open>Association lists as hash maps\<close>

text \<open>
  A \<open>HashMap\<close> whose length or iteration the code uses is a list of pairs with distinct keys;
  inserting overwrites in place or appends, removing filters the key out.
\<close>

fun hm_insert :: "'k \<Rightarrow> 'v \<Rightarrow> ('k \<times> 'v) list \<Rightarrow> ('k \<times> 'v) list" where
  "hm_insert k v [] = [(k, v)]"
| "hm_insert k v (p # ps) = (if fst p = k then (k, v) # ps else p # hm_insert k v ps)"

definition hm_remove :: "'k \<Rightarrow> ('k \<times> 'v) list \<Rightarrow> ('k \<times> 'v) list" where
  "hm_remove k ps = filter (\<lambda>p. fst p \<noteq> k) ps"

lemma map_of_hm_insert [simp]: "map_of (hm_insert k v ps) = (map_of ps)(k \<mapsto> v)"
  by (induction ps) (auto simp: fun_eq_iff)

lemma map_of_hm_remove [simp]: "map_of (hm_remove k ps) = (map_of ps)(k := None)"
  by (induction ps) (auto simp: hm_remove_def fun_eq_iff)

lemma keys_hm_insert [simp]: "fst ` set (hm_insert k v ps) = insert k (fst ` set ps)"
  by (induction ps) auto

lemma keys_hm_remove [simp]: "fst ` set (hm_remove k ps) = fst ` set ps - {k}"
  by (auto simp: hm_remove_def)

lemma distinct_hm_insert [simp]:
  "distinct (map fst ps) \<Longrightarrow> distinct (map fst (hm_insert k v ps))"
proof (induction ps)
  case (Cons p ps)
  then show ?case using keys_hm_insert [of k v ps] by auto
qed simp

lemma distinct_hm_remove [simp]:
  "distinct (map fst ps) \<Longrightarrow> distinct (map fst (hm_remove k ps))"
  by (simp add: hm_remove_def distinct_map_filter)

lemma hm_insert_not_Nil [simp]: "hm_insert k v ps \<noteq> []"
  by (cases ps) auto

lemma length_hm_insert:
  "length (hm_insert k v ps) = (if k \<in> fst ` set ps then length ps else Suc (length ps))"
  by (induction ps) auto

lemma length_hm_insert_eq_1:
  assumes "distinct (map fst ps)"
  shows "length (hm_insert k v ps) = 1 \<longleftrightarrow> fst ` set ps \<subseteq> {k}"
proof (cases ps)
  case (Cons p qs)
  then show ?thesis using assms by (cases qs) (auto simp: length_hm_insert)
qed simp

lemma hm_remove_eq_Nil_iff: "hm_remove k ps = [] \<longleftrightarrow> fst ` set ps \<subseteq> {k}"
  by (auto simp: hm_remove_def filter_empty_conv)

text \<open>The order in which a hash map is iterated is not specified: some permutation of its entries.\<close>

definition iter_law :: "('a list \<Rightarrow> 'a list) \<Rightarrow> bool" where
  [lib_laws]: "iter_law iter \<longleftrightarrow> (\<forall>xs. mset (iter xs) = mset xs)"

lemma set_iter: "iter_law iter \<Longrightarrow> set (iter xs) = set xs"
  by (metis iter_law_def set_mset_mset)

lemma iter_law_id: "iter_law (\<lambda>xs. xs)"
  by (simp add: lib_laws)

lemma iter_law_rev: "iter_law rev"
  by (simp add: lib_laws)

section \<open>Integer arithmetic\<close>

text \<open>
  The operators on unsigned integers. With overflow checks (debug builds) a result out of range
  panics; without them (release builds) it wraps around. Division by zero always panics.
\<close>

definition word_add :: "bool \<Rightarrow> 'a::len word \<Rightarrow> 'a word \<Rightarrow> 'a word outcome" where
  "word_add checks a b = (if checks \<and> 2 ^ LENGTH('a) \<le> unat a + unat b then Panics else Returns (a + b))"

definition word_sub :: "bool \<Rightarrow> 'a::len word \<Rightarrow> 'a word \<Rightarrow> 'a word outcome" where
  "word_sub checks a b = (if checks \<and> a < b then Panics else Returns (a - b))"

definition word_mul :: "bool \<Rightarrow> 'a::len word \<Rightarrow> 'a word \<Rightarrow> 'a word outcome" where
  "word_mul checks a b = (if checks \<and> 2 ^ LENGTH('a) \<le> unat a * unat b then Panics else Returns (a * b))"

definition word_divide :: "'a::len word \<Rightarrow> 'a word \<Rightarrow> 'a word outcome" where
  "word_divide a b = (if b = 0 then Panics else Returns (a div b))"

lemma unchecked_arith [simp]:
  "word_add False a b = Returns (a + b)" "word_sub False a b = Returns (a - b)"
  "word_mul False a b = Returns (a * b)"
  by (simp_all add: word_add_def word_sub_def word_mul_def)

lemma checked_add_iff:
  "word_add True a b = Returns c \<longleftrightarrow> unat a + unat b < 2 ^ LENGTH('a) \<and> unat c = unat a + unat b"
  for a b c :: "'a::len word"
  by (auto simp: word_add_def not_le word_unat_eq_iff unat_word_ariths)

lemma checked_sub_iff:
  "word_sub True a b = Returns c \<longleftrightarrow> unat b \<le> unat a \<and> unat c = unat a - unat b"
  for a b c :: "'a::len word"
  by (auto simp: word_sub_def word_less_nat_alt not_less unat_sub word_le_nat_alt word_unat_eq_iff)

text \<open>At 32 bits, in terms of integers.\<close>

definition in_u32 :: "int \<Rightarrow> bool" where
  "in_u32 n \<longleftrightarrow> 0 \<le> n \<and> n < 4294967296"

lemma uint_arith_u32:
  "uint (a + b) = (uint a + uint b) mod 4294967296" "uint (a - b) = (uint a - uint b) mod 4294967296"
  for a b :: u32
  by (simp_all add: uint_word_ariths)

lemma uint_u32_range: "0 \<le> uint a" "uint a < 4294967296" for a :: u32
  using uint_lt2p [of a] by simp_all

lemma word_add_u32: "word_add checks a b = (if checks \<and> \<not> in_u32 (uint a + uint b) then Panics else Returns (a + b))"
  for a b :: u32
proof -
  have "(4294967296 :: nat) \<le> unat a + unat b \<longleftrightarrow> \<not> in_u32 (int (unat a) + int (unat b))"
    unfolding in_u32_def by linarith
  then show ?thesis by (simp add: word_add_def)
qed

lemma word_sub_u32: "word_sub checks a b = (if checks \<and> \<not> in_u32 (uint a - uint b) then Panics else Returns (a - b))"
  for a b :: u32
proof -
  have "uint a < uint b \<longleftrightarrow> \<not> in_u32 (uint a - uint b)"
    unfolding in_u32_def using uint_u32_range [of a] uint_u32_range [of b] by linarith
  then show ?thesis by (simp add: word_sub_def word_less_def)
qed

lemma word_add_1_u32: "word_add checks n 1 = (if checks \<and> n = - 1 then Panics else Returns (n + 1))" for n :: u32
proof -
  have max: "unat (- 1 :: u32) = 4294967295" by (simp add: unsigned_minus_1_eq_mask mask_eq_exp_minus_1)
  have "unat n < 4294967296" using unsigned_less [of n, where 'a = nat] by simp
  then have "n = - 1 \<longleftrightarrow> 4294967296 \<le> unat n + 1" by (auto simp: word_unat_eq_iff max)
  then show ?thesis by (simp add: word_add_def)
qed

section \<open>Reachable states, invariants and simulations\<close>

inductive reachable :: "('s \<Rightarrow> 's \<Rightarrow> bool) \<Rightarrow> 's \<Rightarrow> 's \<Rightarrow> bool"
  for step :: "'s \<Rightarrow> 's \<Rightarrow> bool" and s0 :: 's where
  reachable_refl: "reachable step s0 s0"
| reachable_step: "reachable step s0 s \<Longrightarrow> step s s' \<Longrightarrow> reachable step s0 s'"

lemma reachable_trans: "reachable step s1 s2 \<Longrightarrow> reachable step s0 s1 \<Longrightarrow> reachable step s0 s2"
  by (induction rule: reachable.induct) (auto intro: reachable_step)

text \<open>What a step relation with an invariant promises, and what follows for all reachable states.\<close>

locale invariant_system =
  fixes step :: "'s \<Rightarrow> 's \<Rightarrow> bool" and inv :: "'s \<Rightarrow> bool"
  assumes inv_step: "step s s' \<Longrightarrow> inv s \<Longrightarrow> inv s'"
begin

lemma inv_reachable: "reachable step s0 s \<Longrightarrow> inv s0 \<Longrightarrow> inv s"
  by (induction rule: reachable.induct) (auto intro: inv_step)

end

text \<open>A step relation that implements an abstract one through \<open>abs\<close>.\<close>

locale simulation = invariant_system step inv + spec: invariant_system astep ainv
  for step :: "'s \<Rightarrow> 's \<Rightarrow> bool" and inv :: "'s \<Rightarrow> bool"
    and astep :: "'a \<Rightarrow> 'a \<Rightarrow> bool" and ainv :: "'a \<Rightarrow> bool" +
  fixes abs :: "'s \<Rightarrow> 'a"
  assumes simulates_step: "step s s' \<Longrightarrow> inv s \<Longrightarrow> astep (abs s) (abs s')"
begin

lemma simulates_reachable:
  "reachable step s0 s \<Longrightarrow> inv s0 \<Longrightarrow> reachable astep (abs s0) (abs s)"
proof (induction rule: reachable.induct)
  case (reachable_step s s')
  then have "inv s" using inv_reachable by blast
  with reachable_step show ?case using simulates_step by (blast intro: reachable.reachable_step)
qed (rule reachable.reachable_refl)

lemma spec_invariant_reachable:
  "reachable step s0 s \<Longrightarrow> inv s0 \<Longrightarrow> ainv (abs s0) \<Longrightarrow> ainv (abs s)"
  using simulates_reachable spec.inv_reachable by blast

end

end
