(* ===== verification/HL_Utf8.thy ===== *)
theory HL_Utf8
  imports HL_Prelude
begin

text \<open>
  Rust strings as the standard library has them: a \<open>str\<close> is a sequence of Unicode scalar values
  held as UTF-8, \<open>str::as_bytes\<close> and \<open>String::into_bytes\<close> give those bytes, and
  \<open>String::from_utf8\<close> accepts exactly the well-formed byte sequences (no overlong form, no
  surrogate, nothing above 10FFFF). The two are inverse to each other.
\<close>

section \<open>Scalar values and their encoding\<close>

type_synonym rust_string = "nat list"

definition is_scalar :: "nat \<Rightarrow> bool" where
  "is_scalar c \<longleftrightarrow> c < 0xD800 \<or> (0xE000 \<le> c \<and> c \<le> 0x10FFFF)"

definition is_rust_string :: "rust_string \<Rightarrow> bool" where
  "is_rust_string s = list_all is_scalar s"

definition utf8_char :: "nat \<Rightarrow> nat list" where
  "utf8_char c =
     (if c < 0x80 then [c]
      else if c < 0x800 then [0xC0 + c div 64, 0x80 + c mod 64]
      else if c < 0x10000 then [0xE0 + c div 4096, 0x80 + c div 64 mod 64, 0x80 + c mod 64]
      else [0xF0 + c div 262144, 0x80 + c div 4096 mod 64, 0x80 + c div 64 mod 64,
            0x80 + c mod 64])"

definition utf8_units :: "rust_string \<Rightarrow> nat list" where
  "utf8_units s = concat (map utf8_char s)"

definition str_as_bytes :: "rust_string \<Rightarrow> bytes" where
  "str_as_bytes s = map of_nat (utf8_units s)"

section \<open>Validation and decoding\<close>

definition is_cont :: "nat \<Rightarrow> bool" where
  "is_cont b \<longleftrightarrow> 0x80 \<le> b \<and> b \<le> 0xBF"

text \<open>
  One character: the width comes from the first byte, the second byte has the ranges of the
  well-formed sequences, the others are continuation bytes.
\<close>

definition ok3 :: "nat \<Rightarrow> nat \<Rightarrow> bool" where
  "ok3 a b \<longleftrightarrow> (a = 0xE0 \<and> 0xA0 \<le> b \<and> b \<le> 0xBF) \<or> (0xE1 \<le> a \<and> a \<le> 0xEC \<and> is_cont b)
     \<or> (a = 0xED \<and> 0x80 \<le> b \<and> b \<le> 0x9F) \<or> (0xEE \<le> a \<and> a \<le> 0xEF \<and> is_cont b)"

definition ok4 :: "nat \<Rightarrow> nat \<Rightarrow> bool" where
  "ok4 a b \<longleftrightarrow> (a = 0xF0 \<and> 0x90 \<le> b \<and> b \<le> 0xBF) \<or> (0xF1 \<le> a \<and> a \<le> 0xF3 \<and> is_cont b)
     \<or> (a = 0xF4 \<and> 0x80 \<le> b \<and> b \<le> 0x8F)"

fun next_char :: "nat list \<Rightarrow> (nat \<times> nat list) option" where
  "next_char [] = None"
| "next_char (a # r) =
     (if a < 0x80 then Some (a, r)
      else if a < 0xC2 then None
      else if a < 0xE0 then
        (case r of b # r' \<Rightarrow>
           if is_cont b then Some ((a - 0xC0) * 64 + (b - 0x80), r') else None | _ \<Rightarrow> None)
      else if a < 0xF0 then
        (case r of b # c # r' \<Rightarrow>
           if ok3 a b \<and> is_cont c
           then Some ((a - 0xE0) * 4096 + (b - 0x80) * 64 + (c - 0x80), r') else None | _ \<Rightarrow> None)
      else if a < 0xF5 then
        (case r of b # c # d # r' \<Rightarrow>
           if ok4 a b \<and> is_cont c \<and> is_cont d
           then Some ((a - 0xF0) * 262144 + (b - 0x80) * 4096 + (c - 0x80) * 64 + (d - 0x80), r')
           else None | _ \<Rightarrow> None)
      else None)"

lemma next_char_shorter: "next_char bs = Some (c, r) \<Longrightarrow> length r < length bs"
  by (cases bs) (auto split: if_splits list.splits)

function decode_units :: "nat list \<Rightarrow> rust_string option" where
  "decode_units bs =
     (if bs = [] then Some []
      else case next_char bs of
        None \<Rightarrow> None
      | Some (c, r) \<Rightarrow> map_option (Cons c) (decode_units r))"
  by pat_completeness auto
termination
  by (relation "measure length") (auto simp: next_char_shorter)

declare decode_units.simps [simp del]

definition from_utf8 :: "bytes \<Rightarrow> rust_string option" where
  "from_utf8 bs = decode_units (map unat bs)"

section \<open>Round trips\<close>

lemma utf8_char_bytes: "is_scalar c \<Longrightarrow> x \<in> set (utf8_char c) \<Longrightarrow> x < 256"
  by (auto simp: utf8_char_def is_scalar_def split: if_splits)

lemma next_char_encoded1: "c < 0x80 \<Longrightarrow> next_char (utf8_char c @ r) = Some (c, r)"
  by (simp add: utf8_char_def)

lemma next_char_encoded2:
  "0x80 \<le> c \<Longrightarrow> c < 0x800 \<Longrightarrow> next_char (utf8_char c @ r) = Some (c, r)"
  by (simp add: utf8_char_def is_cont_def) arith

lemma base64_digits3:
  obtains x y z where "c = x * 4096 + y * 64 + z" "y < 64" "z < 64"
    "c div 4096 = x" "c div 64 mod 64 = y" "c mod 64 = (z::nat)"
proof
  have "c = c div 64 * 64 + c mod 64" by simp
  moreover have "c div 64 = c div 4096 * 64 + c div 64 mod 64"
    using div_mult_mod_eq [of "c div 64" 64] by (simp add: div_mult2_eq [symmetric])
  ultimately show "c = c div 4096 * 4096 + c div 64 mod 64 * 64 + c mod 64"
    by linarith
qed auto

lemma base64_digits4:
  obtains w x y z where "c = w * 262144 + x * 4096 + y * 64 + z" "x < 64" "y < 64" "z < 64"
    "c div 262144 = w" "c div 4096 mod 64 = x" "c div 64 mod 64 = y" "c mod 64 = (z::nat)"
proof -
  obtain v y z where v: "c = v * 4096 + y * 64 + z" "y < 64" "z < 64"
      "c div 4096 = v" "c div 64 mod 64 = y" "c mod 64 = z"
    by (rule base64_digits3 [of c])
  have "v = v div 64 * 64 + v mod 64" by simp
  moreover have "v div 64 = c div 262144"
    using v(4) by (simp add: div_mult2_eq [symmetric])
  ultimately show thesis
    using that [of "v div 64" "v mod 64" y z] v by simp
qed

lemma next_char_encoded3:
  assumes "0x800 \<le> c" "c < 0x10000" "is_scalar c"
  shows "next_char (utf8_char c @ r) = Some (c, r)"
proof -
  obtain x y z where c: "c = x * 4096 + y * 64 + z" "y < 64" "z < 64"
      "c div 4096 = x" "c div 64 mod 64 = y" "c mod 64 = z"
    by (rule base64_digits3 [of c])
  have "ok3 (0xE0 + x) (0x80 + y)" and "x < 16"
    using assms c(1-3) unfolding ok3_def is_cont_def is_scalar_def by auto
  moreover have "utf8_char c = [0xE0 + x, 0x80 + y, 0x80 + z]"
    using assms by (simp add: utf8_char_def c(4-6))
  ultimately show ?thesis
    using c(1-3) by (simp add: is_cont_def)
qed

lemma next_char_encoded4:
  assumes "0x10000 \<le> c" "is_scalar c"
  shows "next_char (utf8_char c @ r) = Some (c, r)"
proof -
  obtain w x y z where c: "c = w * 262144 + x * 4096 + y * 64 + z" "x < 64" "y < 64" "z < 64"
      "c div 262144 = w" "c div 4096 mod 64 = x" "c div 64 mod 64 = y" "c mod 64 = z"
    by (rule base64_digits4 [of c])
  have "ok4 (0xF0 + w) (0x80 + x)" and "w < 5"
    using assms c(1-4) unfolding ok4_def is_cont_def is_scalar_def by auto
  moreover have "utf8_char c = [0xF0 + w, 0x80 + x, 0x80 + y, 0x80 + z]"
    using assms by (simp add: utf8_char_def c(5-8))
  ultimately show ?thesis
    using c(1-4) by (simp add: is_cont_def)
qed

lemma next_char_encoded: "is_scalar c \<Longrightarrow> next_char (utf8_char c @ r) = Some (c, r)"
  using next_char_encoded1 [of c r] next_char_encoded2 [of c r] next_char_encoded3 [of c r]
    next_char_encoded4 [of c r] by linarith

lemma utf8_char_not_Nil [simp]: "utf8_char c \<noteq> []"
  by (simp add: utf8_char_def)

lemma decode_utf8_units: "is_rust_string s \<Longrightarrow> decode_units (utf8_units s) = Some s"
proof (induction s)
  case Nil
  then show ?case by (simp add: utf8_units_def decode_units.simps)
next
  case (Cons c s)
  then have "is_scalar c" and "decode_units (utf8_units s) = Some s"
    by (simp_all add: is_rust_string_def)
  then show ?case
    using next_char_encoded [of c "utf8_units s"]
    by (subst decode_units.simps) (simp add: utf8_units_def)
qed

lemma utf8_units_bytes: "is_rust_string s \<Longrightarrow> x \<in> set (utf8_units s) \<Longrightarrow> x < 256"
  by (auto simp: utf8_units_def is_rust_string_def list_all_iff dest: utf8_char_bytes)

lemma unat_str_as_bytes: "is_rust_string s \<Longrightarrow> map unat (str_as_bytes s) = utf8_units s"
  by (auto simp: str_as_bytes_def map_idI utf8_units_bytes)

lemma from_utf8_as_bytes: "is_rust_string s \<Longrightarrow> from_utf8 (str_as_bytes s) = Some s"
  by (simp add: from_utf8_def unat_str_as_bytes decode_utf8_units)

text \<open>Conversely, what the decoder accepts is the encoding of a string of scalar values.\<close>

lemma divmod64:
  "r < 64 \<Longrightarrow> (q * 64 + r) div 64 = q" "r < 64 \<Longrightarrow> (q * 64 + r) mod 64 = (r::nat)"
  by simp_all

lemma base64_unique3:
  assumes "c = x * 4096 + y * 64 + (z::nat)" "y < 64" "z < 64"
  shows "c div 4096 = x \<and> c div 64 mod 64 = y \<and> c mod 64 = z"
proof -
  have "c = (x * 64 + y) * 64 + z" using assms(1) by simp
  then have c64: "c div 64 = x * 64 + y" "c mod 64 = z"
    using assms(3) by (simp_all only: divmod64)
  moreover have "c div 64 div 64 = x" "c div 64 mod 64 = y"
    using assms(2) by (simp_all only: c64 divmod64)
  ultimately show ?thesis by (simp add: div_mult2_eq [symmetric])
qed

lemma base64_unique4:
  assumes "c = w * 262144 + x * 4096 + y * 64 + (z::nat)" "x < 64" "y < 64" "z < 64"
  shows "c div 262144 = w \<and> c div 4096 mod 64 = x \<and> c div 64 mod 64 = y \<and> c mod 64 = z"
proof -
  have "c = (w * 4096 + x * 64 + y) * 64 + z" using assms(1) by simp
  then have c64: "c div 64 = w * 4096 + x * 64 + y" "c mod 64 = z"
    using assms(4) by (simp_all only: divmod64)
  from base64_unique3 [OF c64(1) assms(2,3)] c64(2) show ?thesis
    by (simp add: div_mult2_eq [symmetric])
qed

lemma next_char_sound:
  assumes "next_char bs = Some (c, r)"
  shows "is_scalar c \<and> bs = utf8_char c @ r"
proof (cases bs)
  case Nil
  then show ?thesis using assms by simp
next
  case (Cons a t)
  consider "a < 0x80" | "0xC2 \<le> a" "a < 0xE0" | "0xE0 \<le> a" "a < 0xF0" | "0xF0 \<le> a" "a < 0xF5"
    using assms Cons by (auto split: if_splits)
  then show ?thesis
  proof cases
    case 1
    then show ?thesis using assms Cons by (simp add: is_scalar_def utf8_char_def)
  next
    case 2
    then obtain b where t: "t = b # r" "is_cont b" "c = (a - 0xC0) * 64 + (b - 0x80)"
      using assms Cons by (auto split: if_splits list.splits)
    obtain x y where xy: "a = 0xC0 + x" "b = 0x80 + y" "y < 64" "2 \<le> x" "x < 32"
      using t 2 by (auto simp: is_cont_def dest!: le_Suc_ex)
    then show ?thesis using t Cons by (simp add: is_scalar_def utf8_char_def)
  next
    case 3
    then obtain b d where t: "t = b # d # r" "ok3 a b" "is_cont d"
        "c = (a - 0xE0) * 4096 + (b - 0x80) * 64 + (d - 0x80)"
      using assms Cons by (auto split: if_splits list.splits)
    obtain x y z where xyz: "a = 0xE0 + x" "b = 0x80 + y" "d = 0x80 + z" "y < 64" "z < 64" "x < 16"
      using t 3 by (auto simp: ok3_def is_cont_def dest!: le_Suc_ex)
    have c: "c = x * 4096 + y * 64 + z" using t xyz by simp
    then have "c div 4096 = x \<and> c div 64 mod 64 = y \<and> c mod 64 = z"
      using xyz by (intro base64_unique3) auto
    moreover have "0x800 \<le> c" "c < 0x10000" "is_scalar c"
      using t(2) xyz unfolding c ok3_def is_scalar_def by auto
    ultimately show ?thesis using t xyz Cons by (simp add: utf8_char_def)
  next
    case 4
    then obtain b d e where t: "t = b # d # e # r" "ok4 a b" "is_cont d" "is_cont e"
        "c = (a - 0xF0) * 262144 + (b - 0x80) * 4096 + (d - 0x80) * 64 + (e - 0x80)"
      using assms Cons by (auto split: if_splits list.splits)
    obtain x y z w where xyz: "a = 0xF0 + x" "b = 0x80 + y" "d = 0x80 + z" "e = 0x80 + w"
        "y < 64" "z < 64" "w < 64" "x < 5"
      using t 4 by (auto simp: ok4_def is_cont_def dest!: le_Suc_ex)
    have c: "c = x * 262144 + y * 4096 + z * 64 + w" using t xyz by simp
    then have "c div 262144 = x \<and> c div 4096 mod 64 = y \<and> c div 64 mod 64 = z \<and> c mod 64 = w"
      using xyz by (intro base64_unique4) auto
    moreover have "0x10000 \<le> c" "is_scalar c"
      using t(2) xyz unfolding c ok4_def is_scalar_def by auto
    ultimately show ?thesis using t xyz Cons by (simp add: utf8_char_def)
  qed
qed

lemma decode_units_sound:
  "decode_units bs = Some s \<Longrightarrow> is_rust_string s \<and> utf8_units s = bs"
proof (induction bs arbitrary: s rule: decode_units.induct)
  case (1 bs)
  show ?case
  proof (cases "bs = []")
    case True
    then show ?thesis
      using "1.prems" by (simp add: decode_units.simps is_rust_string_def utf8_units_def)
  next
    case False
    then obtain c r s' where nc: "next_char bs = Some (c, r)"
        and s': "decode_units r = Some s'" and s: "s = c # s'"
      using "1.prems" by (subst (asm) decode_units.simps) (auto split: option.splits)
    have "is_rust_string s' \<and> utf8_units s' = r"
      using "1.IH" [OF False nc refl s'] .
    then show ?thesis
      using next_char_sound [OF nc] s by (simp add: is_rust_string_def utf8_units_def)
  qed
qed

lemma from_utf8_sound:
  assumes "from_utf8 bs = Some s"
  shows "is_rust_string s" and "str_as_bytes s = bs"
proof -
  have *: "is_rust_string s \<and> utf8_units s = map unat bs"
    using assms by (simp add: from_utf8_def decode_units_sound)
  then show "is_rust_string s" by simp
  show "str_as_bytes s = bs" using * by (simp add: str_as_bytes_def comp_def)
qed

end
