(* ===== verification/HL_Decimal.thy ===== *)
theory HL_Decimal
  imports HL_Prelude
begin

text \<open>
  The standard library's decimal conversions of unsigned integers, which the handshake uses for
  the protocol version and the compression level: \<open>Display\<close> (\<open>format!("{}", n)\<close>) and
  \<open>FromStr\<close> (\<open>s.parse::<u8>()\<close>, with the type's largest value as a parameter).
\<close>

definition digit_char :: "nat \<Rightarrow> char" where
  "digit_char d = char_of (48 + d)"

fun show_nat :: "nat \<Rightarrow> string" where
  "show_nat n = (if n < 10 then [digit_char n] else show_nat (n div 10) @ [digit_char (n mod 10)])"

declare show_nat.simps [simp del]

definition digit_value :: "char \<Rightarrow> nat option" where
  "digit_value c =
     (let n = of_char c in if 48 \<le> n \<and> n \<le> 57 then Some (n - 48) else None)"

text \<open>
  The digit loop of \<open>from_str_radix\<close>: \<open>checked_mul\<close> by ten, then \<open>checked_add\<close> of the digit.
\<close>

fun parse_digits :: "nat \<Rightarrow> nat \<Rightarrow> string \<Rightarrow> nat option" where
  "parse_digits mx acc [] = Some acc"
| "parse_digits mx acc (c # cs) =
     (case digit_value c of
        None \<Rightarrow> None
      | Some d \<Rightarrow>
          (if mx < acc * 10 then None
           else if mx < acc * 10 + d then None
           else parse_digits mx (acc * 10 + d) cs))"

text \<open>An empty string, a lone sign and a minus sign are errors; a leading plus is dropped.\<close>

definition parse_uint :: "nat \<Rightarrow> string \<Rightarrow> nat option" where
  "parse_uint mx s =
     (case s of
        [] \<Rightarrow> None
      | c # cs \<Rightarrow>
          (if cs = [] \<and> (c = CHR ''+'' \<or> c = CHR ''-'') then None
           else if c = CHR ''+'' then parse_digits mx 0 cs
           else parse_digits mx 0 s))"

section \<open>Parsing what was printed\<close>

lemma of_char_digit: "d < 10 \<Longrightarrow> of_char (digit_char d) = 48 + d"
  by (simp add: digit_char_def)

lemma digit_value_digit_char [simp]: "d < 10 \<Longrightarrow> digit_value (digit_char d) = Some d"
  by (simp add: digit_value_def of_char_digit)

lemma digit_char_not_sign: "d < 10 \<Longrightarrow> digit_char d \<noteq> CHR ''+'' \<and> digit_char d \<noteq> CHR ''-''"
proof -
  assume "d < 10"
  then have "of_char (digit_char d) = 48 + d" by (rule of_char_digit)
  moreover have "of_char (CHR ''+'') = (43::nat)" "of_char (CHR ''-'') = (45::nat)" by simp_all
  ultimately show ?thesis by force
qed

lemma parse_digits_append:
  "parse_digits mx acc (xs @ ys) = Option.bind (parse_digits mx acc xs) (\<lambda>a. parse_digits mx a ys)"
  by (induction xs arbitrary: acc) (auto split: option.splits)

lemma parse_digits_show: "n \<le> mx \<Longrightarrow> parse_digits mx 0 (show_nat n) = Some n"
proof (induction n rule: show_nat.induct)
  case (1 n)
  show ?case
  proof (cases "n < 10")
    case True
    then show ?thesis using "1.prems" by (subst show_nat.simps) simp
  next
    case False
    have "n div 10 \<le> mx" using "1.prems" by simp
    with False "1.IH" have "parse_digits mx 0 (show_nat (n div 10)) = Some (n div 10)" by simp
    then show ?thesis
      using False "1.prems" by (subst show_nat.simps) (simp add: parse_digits_append)
  qed
qed

lemma parse_digits_show_overflow: "mx < n \<Longrightarrow> parse_digits mx 0 (show_nat n) = None"
proof (induction n rule: show_nat.induct)
  case (1 n)
  show ?case
  proof (cases "n < 10")
    case True
    then show ?thesis using "1.prems" by (subst show_nat.simps) simp
  next
    case False
    show ?thesis
    proof (cases "n div 10 \<le> mx")
      case True
      have "mx < n div 10 * 10 + n mod 10" using "1.prems" by simp
      then show ?thesis
        using False parse_digits_show [OF True] by (subst show_nat.simps) (simp add: parse_digits_append)
    next
      case False
      then show ?thesis
        using "1.IH" \<open>\<not> n < 10\<close> by (subst show_nat.simps) (simp add: parse_digits_append)
    qed
  qed
qed

lemma show_nat_not_Nil [simp]: "show_nat n \<noteq> []"
  by (subst show_nat.simps) simp

lemma hd_show_nat: "\<exists>d < 10. hd (show_nat n) = digit_char d"
proof (induction n rule: show_nat.induct)
  case (1 n)
  then show ?case by (subst show_nat.simps) (auto simp: hd_append)
qed

lemma parse_uint_show_nat: "parse_uint mx (show_nat n) = (if n \<le> mx then Some n else None)"
proof -
  obtain d cs where s: "show_nat n = digit_char d # cs" and d: "d < 10"
    using hd_show_nat [of n] by (metis hd_Cons_tl show_nat_not_Nil)
  then have "parse_uint mx (show_nat n) = parse_digits mx 0 (show_nat n)"
    using digit_char_not_sign [OF d] by (simp add: parse_uint_def)
  then show ?thesis using parse_digits_show parse_digits_show_overflow by (simp add: not_le)
qed

lemma parse_digits_le: "acc \<le> mx \<Longrightarrow> parse_digits mx acc s = Some n \<Longrightarrow> n \<le> mx"
  by (induction s arbitrary: acc) (auto simp: not_less split: option.splits if_splits)

lemma show_nat_inject: "show_nat m = show_nat n \<longleftrightarrow> m = n"
  by (metis order_refl option.inject parse_digits_show max.cobounded1 max.cobounded2)

lemma set_show_nat: "c \<in> set (show_nat n) \<Longrightarrow> \<exists>d < 10. c = digit_char d"
proof (induction n rule: show_nat.induct)
  case (1 n)
  from "1.prems" consider "n < 10" "c = digit_char n"
    | "\<not> n < 10" "c \<in> set (show_nat (n div 10))" | "c = digit_char (n mod 10)"
    by (subst (asm) show_nat.simps) (auto split: if_splits)
  then show ?case
  proof cases
    case 3
    moreover have "n mod 10 < 10" by simp
    ultimately show ?thesis by blast
  qed (use "1.IH" in auto)
qed

end
