(* ===== verification/HL_Wire.thy ===== *)
theory HL_Wire
  imports HL_Utf8 HL_Decimal
begin

text \<open>
  The data that travels: the messages of \<open>src/wire.rs\<close> and the topics, events, state updates and
  subscription notifications of \<open>src/server.rs\<close>, with \<open>Topic\<close>'s conversions.
\<close>

section \<open>Errors and messages\<close>

datatype rpc_handler_error =
    ClientNotConnected
  | TooManyCallsInFlight
  | ClientEncodeError
  | ClientDecodeError
  | ServerEncodeError
  | ServerDecodeError
  | ClientCompressError
  | ClientDecompressError
  | ServerCompressError
  | ServerDecompressError
  | HandlerPanicked

type_synonym 'a handler_result = "rpc_handler_error + 'a"

record state_update =
  index :: nat
  data :: bytes

record topic =
  inner :: bytes
  is_string :: bool

record event =
  ev_topic :: topic
  ev_payload :: bytes

datatype client_message = RPCRequest (req_id: u8) (req_internal: bytes)

datatype server_message =
    RPCResponse u8 "bytes handler_result"
  | NewEvent topic bytes
  | StateChange "state_update list"

section \<open>Subscription and topic notifications\<close>

text \<open>
  A sender of an event channel is known by the number of its channel; a subscription identifier
  is sixteen random bytes.
\<close>

type_synonym subscription_id = bytes
type_synonym event_sender = nat

datatype subscription_notification =
    SnSubscribe topic subscription_id event_sender
  | SnUnsubscribe topic subscription_id

datatype proxied_notification =
    PxSubscribe topic
  | PxUnsubscribe topic

datatype topic_notification = Created topic | Removed topic

section \<open>\<open>Event::new\<close> and \<open>Topic\<close>'s conversions\<close>

text \<open>The payload is given after its own \<open>Into<Vec<u8>>\<close>.\<close>

definition event_new :: "topic \<Rightarrow> bytes \<Rightarrow> event" where
  "event_new t payload = \<lparr>ev_topic = t, ev_payload = payload\<rparr>"

definition topic_default :: topic where
  "topic_default = \<lparr>inner = [], is_string = False\<rparr>"

definition topic_into_vec :: "topic \<Rightarrow> bytes" where
  "topic_into_vec t = inner t"

definition topic_of_vec :: "bytes \<Rightarrow> topic" where
  "topic_of_vec v = \<lparr>inner = v, is_string = False\<rparr>"

definition topic_of_str :: "rust_string \<Rightarrow> topic" where
  "topic_of_str s = \<lparr>inner = str_as_bytes s, is_string = True\<rparr>"

definition topic_of_string :: "rust_string \<Rightarrow> topic" where
  "topic_of_string s = \<lparr>inner = str_as_bytes s, is_string = True\<rparr>"

definition topic_as_string :: "topic \<Rightarrow> rust_string" where
  "topic_as_string t = unwrap_or (from_utf8 (inner t)) []"

definition topic_as_bytes :: "topic \<Rightarrow> bytes" where
  "topic_as_bytes t = inner t"

text \<open>\<open>{:?}\<close> of a byte vector: the decimal bytes between brackets, separated by comma and space.\<close>

fun debug_items :: "nat list \<Rightarrow> string" where
  "debug_items [] = ''''"
| "debug_items [x] = show_nat x"
| "debug_items (x # y # xs) = show_nat x @ '', '' @ debug_items (y # xs)"

definition debug_vec :: "bytes \<Rightarrow> string" where
  "debug_vec v = ''['' @ debug_items (map unat v) @ '']''"

definition topic_fmt :: "topic \<Rightarrow> rust_string" where
  "topic_fmt t = (if is_string t then topic_as_string t else map of_char (debug_vec (inner t)))"

lemmas topic_defs = topic_default_def topic_into_vec_def topic_of_vec_def topic_of_str_def
  topic_of_string_def topic_as_string_def topic_as_bytes_def

lemma topic_as_string_of_str: "is_rust_string s \<Longrightarrow> topic_as_string (topic_of_str s) = s"
  by (simp add: topic_defs from_utf8_as_bytes)

section \<open>Topics made from text\<close>

text \<open>
  C40: a topic made from a string gives that string back, prints as it, holds exactly its UTF-8
  bytes, and is a different key from the topic made from those same bytes.
\<close>

theorem topic_string_roundtrip:
  assumes "is_rust_string s"
  shows "topic_as_string (topic_of_str s) = s \<and> topic_fmt (topic_of_str s) = s
    \<and> from_utf8 (topic_as_bytes (topic_of_str s)) = Some s
    \<and> topic_of_str s = topic_of_string s
    \<and> topic_of_str s \<noteq> topic_of_vec (topic_into_vec (topic_of_str s))"
  using assms by (simp add: topic_as_string_of_str topic_fmt_def)
    (simp add: topic_defs from_utf8_as_bytes)

theorem topic_string_roundtrip_witness:
  "topic_as_string (topic_of_str [104, 233, 8364, 128512]) = [104, 233, 8364, 128512]
   \<and> topic_of_str [104, 233, 8364, 128512] \<noteq> topic_of_vec (topic_into_vec (topic_of_str [104, 233, 8364, 128512]))"
proof -
  have "is_rust_string [104, 233, 8364, 128512]" by (simp add: is_rust_string_def is_scalar_def)
  from topic_string_roundtrip [OF this] show ?thesis by blast
qed

text \<open>
  Whatever bytes a topic holds, its string is either the empty default or decodes exactly
  those bytes: a nonempty string re-encodes to the topic's bytes, and bytes that are not
  well-formed UTF-8 read as the empty string.
\<close>

theorem topic_as_string_faithful:
  "(topic_as_string t = [] \<or> str_as_bytes (topic_as_string t) = topic_as_bytes t)
   \<and> (from_utf8 (inner t) = None \<longleftrightarrow> topic_as_string t = [] \<and> topic_as_bytes t \<noteq> [])"
proof (cases "from_utf8 (inner t)")
  case None
  moreover have "inner t \<noteq> []"
    using None by (auto simp: from_utf8_def decode_units.simps)
  ultimately show ?thesis by (simp add: topic_defs)
next
  case (Some s)
  then have "str_as_bytes s = inner t" by (rule from_utf8_sound)
  with Some show ?thesis by (auto simp: topic_defs str_as_bytes_def utf8_units_def)
qed

end
