(* ===== verification/HL_Codec.thy ===== *)
theory HL_Codec
  imports HL_Wire
begin

text \<open>
  The byte-level helpers of \<open>src/lib.rs\<close> (\<open>inflate\<close>, \<open>deflate\<close>, \<open>ser\<close>, \<open>de\<close>), the conversions
  the \<open>codable\<close> macro generates, and the two pipelines a message goes through. The serializer
  (rkyv) and the compressor (flate2) are parameters: records of the functions the code calls,
  with their documented round trips as named laws.
\<close>

section \<open>The libraries the code calls\<close>

text \<open>rkyv for one type: \<open>to_bytes\<close> and \<open>from_bytes\<close>, each of which may fail.\<close>

record 'm rkyv =
  to_bytes :: "'m \<Rightarrow> bytes option"
  from_bytes :: "bytes \<Rightarrow> 'm option"

definition rkyv_law :: "'m rkyv \<Rightarrow> bool" where
  [lib_laws]: "rkyv_law C \<longleftrightarrow> (\<forall>m b. to_bytes C m = Some b \<longrightarrow> from_bytes C b = Some m)"

text \<open>flate2's write-side codecs: new over an output vector, \<open>write_all\<close>, \<open>finish\<close>.\<close>

record ('enc, 'dec) flate =
  enc_new :: "bytes \<Rightarrow> nat \<Rightarrow> 'enc"
  enc_write_all :: "'enc \<Rightarrow> bytes \<Rightarrow> 'enc option"
  enc_finish :: "'enc \<Rightarrow> bytes option"
  dec_new :: "bytes \<Rightarrow> 'dec"
  dec_write_all :: "'dec \<Rightarrow> bytes \<Rightarrow> 'dec option"
  dec_finish :: "'dec \<Rightarrow> bytes option"

definition flate_law :: "('enc, 'dec) flate \<Rightarrow> bool" where
  [lib_laws]: "flate_law F \<longleftrightarrow>
     (\<forall>level msg e out. enc_write_all F (enc_new F [] level) msg = Some e \<longrightarrow>
        enc_finish F e = Some out \<longrightarrow>
        (\<exists>d. dec_write_all F (dec_new F []) out = Some d \<and> dec_finish F d = Some msg))"

lemma rkyv_lawD: "rkyv_law C \<Longrightarrow> to_bytes C m = Some b \<Longrightarrow> from_bytes C b = Some m"
  by (simp add: rkyv_law_def)

section \<open>\<open>src/lib.rs\<close>\<close>

definition inflate :: "('enc, 'dec) flate \<Rightarrow> bytes \<Rightarrow> bytes option" where
  "inflate F msg =
     (let decompressor = dec_new F [] in
      case dec_write_all F decompressor msg of
        None \<Rightarrow> None
      | Some d \<Rightarrow> dec_finish F d)"

definition deflate :: "('enc, 'dec) flate \<Rightarrow> bytes \<Rightarrow> nat \<Rightarrow> bytes option" where
  "deflate F msg level =
     (let compressor = enc_new F [] level in
      case enc_write_all F compressor msg of
        None \<Rightarrow> None
      | Some e \<Rightarrow> enc_finish F e)"

text \<open>
  \<open>ser\<close> serializes on a rayon worker thread, where \<open>to_bytes(..).unwrap()\<close> panics when it fails.
  A pool with a panic handler survives that: the channel's sender is dropped and the awaiting side
  sees \<open>ServerEncodeError\<close>. A pool without one (rayon's default) ends the process, written
  \<open>Panics\<close> here. Which of the two holds is the argument \<open>survives\<close>.
\<close>

definition ser :: "bool \<Rightarrow> 'o rkyv \<Rightarrow> 'o \<Rightarrow> bytes handler_result outcome" where
  "ser survives C output =
     (case unwrap (to_bytes C output) of
        Panics \<Rightarrow> (if survives then Returns (Inl ServerEncodeError) else Panics)
      | Returns b \<Rightarrow> Returns (Inr b))"

definition de :: "'t rkyv \<Rightarrow> bytes \<Rightarrow> 't handler_result" where
  "de C b = (case from_bytes C b of None \<Rightarrow> Inl ServerDecodeError | Some t \<Rightarrow> Inr t)"

section \<open>The \<open>codable\<close> macro\<close>

definition codable_into :: "'t rkyv \<Rightarrow> 't \<Rightarrow> bytes outcome" where
  "codable_into C x = unwrap (to_bytes C x)"

definition codable_from :: "'t rkyv \<Rightarrow> bytes \<Rightarrow> 't outcome" where
  "codable_from C b = unwrap (from_bytes C b)"

section \<open>Message pipelines\<close>

text \<open>What the WebSocket stream yields: an error, a binary message, or another kind of message.\<close>

datatype ws_in = WsErr | WsBinary bytes | WsOther

text \<open>The libraries as the two ends of a connection use them.\<close>

record ('enc, 'dec) hl_lib =
  lib_flate :: "('enc, 'dec) flate"
  lib_client :: "client_message rkyv"
  lib_server :: "server_message rkyv"

definition hl_lib_law :: "('enc, 'dec) hl_lib \<Rightarrow> bool" where
  [lib_laws]: "hl_lib_law L \<longleftrightarrow>
     flate_law (lib_flate L) \<and> rkyv_law (lib_client L) \<and> rkyv_law (lib_server L)"

text \<open>The worker closures of \<open>send_msg\<close> and of the server's receive branch.\<close>

definition encode_server_message :: "('enc, 'dec) hl_lib \<Rightarrow> nat \<Rightarrow> server_message \<Rightarrow> bytes option" where
  "encode_server_message L level msg =
     Option.bind (to_bytes (lib_server L) msg) (\<lambda>b. deflate (lib_flate L) b level)"

definition decode_client_message :: "('enc, 'dec) hl_lib \<Rightarrow> bytes \<Rightarrow> client_message option" where
  "decode_client_message L msg =
     Option.bind (inflate (lib_flate L) msg) (\<lambda>b. from_bytes (lib_client L) b)"

section \<open>Round trips\<close>

lemma inflate_deflate:
  "flate_law F \<Longrightarrow> deflate F msg level = Some out \<Longrightarrow> inflate F out = Some msg"
  by (fastforce simp: lib_laws inflate_def deflate_def Let_def split: option.splits)

lemma decode_encoded_client:
  assumes "hl_lib_law L" "to_bytes (lib_client L) m = Some b"
    "deflate (lib_flate L) b level = Some out"
  shows "decode_client_message L out = Some m"
  using assms inflate_deflate [of "lib_flate L" b level out]
  by (simp add: decode_client_message_def hl_lib_law_def rkyv_lawD)

lemma encode_server_message_decodes:
  assumes "hl_lib_law L" "encode_server_message L level m = Some out"
  obtains b where "inflate (lib_flate L) out = Some b" "from_bytes (lib_server L) b = Some m"
  using assms inflate_deflate [of "lib_flate L"]
  by (fastforce simp: encode_server_message_def hl_lib_law_def bind_eq_Some_conv dest: rkyv_lawD)

text \<open>
  A \<open>codable\<close> value survives the trip through its byte vector; reading bytes that do not
  validate panics, and so does writing a value that cannot be serialized.
\<close>

theorem codable_roundtrip:
  assumes "rkyv_law C"
  shows "(\<forall>b. codable_into C x = Returns b \<longrightarrow> codable_from C b = Returns x)
    \<and> (codable_into C x = Panics \<longleftrightarrow> to_bytes C x = None)
    \<and> (codable_from C y = Panics \<longleftrightarrow> from_bytes C y = None)"
  using rkyv_lawD [OF assms] by (simp add: codable_into_def codable_from_def)

text \<open>
  A concrete instance: single bytes serialized as one-element lists, and a stored (uncompressed)
  stream that prepends a marker byte.
\<close>

definition byte_rkyv :: "u8 rkyv" where
  "byte_rkyv = \<lparr>to_bytes = (\<lambda>x. Some [x]), from_bytes = (\<lambda>b. case b of [x] \<Rightarrow> Some x | _ \<Rightarrow> None)\<rparr>"

definition stored_flate :: "(bytes, bytes) flate" where
  "stored_flate = \<lparr>enc_new = (\<lambda>v level. v), enc_write_all = (\<lambda>e b. Some (e @ b)),
     enc_finish = (\<lambda>e. Some (1 # e)), dec_new = (\<lambda>v. v),
     dec_write_all = (\<lambda>d b. case b of [] \<Rightarrow> None | x # r \<Rightarrow> if x = 1 then Some (d @ r) else None),
     dec_finish = (\<lambda>d. Some d)\<rparr>"

lemma byte_rkyv_law: "rkyv_law byte_rkyv"
  by (auto simp: lib_laws byte_rkyv_def)

lemma stored_flate_law: "flate_law stored_flate"
  by (simp add: lib_laws stored_flate_def)

theorem codable_roundtrip_witness:
  "codable_into byte_rkyv 7 = Returns [7] \<and> codable_from byte_rkyv [7] = Returns 7"
  using codable_roundtrip [OF byte_rkyv_law, of 7] by (simp add: codable_into_def byte_rkyv_def)

end
