(* ===== verification/HL_State.thy ===== *)
theory HL_State
  imports HL_Codec
begin

text \<open>
  Connection state, as the \<open>connection_state\<close> macro (\<open>macros/src/lib.rs\<close>) generates it: the
  server's \<open>StateController\<close> and \<open>StateGuard\<close>, whose \<open>Drop\<close> sends the fields that changed, and
  the client's \<open>ClientState::apply_changes\<close>. A struct is the list of its field values, with one
  serializer per field in the order of declaration.
\<close>

section \<open>The server's side: controller and guard\<close>

record 'v state_controller =
  ctl_state :: "'v list"

record 'v state_guard =
  guard_state :: "'v list"
  starting_state :: "'v list"

definition controller_new :: "'v list \<Rightarrow> 'v state_controller" where
  "controller_new dflt = \<lparr>ctl_state = dflt\<rparr>"

definition controller_write :: "'v state_controller \<Rightarrow> 'v state_guard" where
  "controller_write c = \<lparr>guard_state = ctl_state c, starting_state = ctl_state c\<rparr>"

definition controller_read :: "'v state_controller \<Rightarrow> 'v list" where
  "controller_read c = ctl_state c"

text \<open>\<open>Deref\<close> reads the guarded state, \<open>DerefMut\<close> lets the handler change it.\<close>

definition guard_deref :: "'v state_guard \<Rightarrow> 'v list" where
  "guard_deref g = guard_state g"

definition guard_deref_mut :: "('v list \<Rightarrow> 'v list) \<Rightarrow> 'v state_guard \<Rightarrow> 'v state_guard" where
  "guard_deref_mut f g = g\<lparr>guard_state := f (guard_state g)\<rparr>"

text \<open>
  The repeated block of \<open>drop\<close>: for each field, in order, compare, and push the serialized new
  value under the field's index. A failed serialization is unwrapped.
\<close>

fun collect_changes ::
  "'v rkyv list \<Rightarrow> nat \<Rightarrow> 'v list \<Rightarrow> 'v list \<Rightarrow> state_update list outcome" where
  "collect_changes (c # cs) i (new # news) (old # olds) =
     (if new \<noteq> old
      then and_then (unwrap (to_bytes c new)) (\<lambda>b.
             and_then (collect_changes cs (Suc i) news olds) (\<lambda>r.
               Returns (\<lparr>index = i, data = b\<rparr> # r)))
      else collect_changes cs (Suc i) news olds)"
| "collect_changes _ i _ _ = Returns []"

text \<open>\<open>None\<close>: nothing changed and nothing is sent; \<open>Some\<close>: the batch handed to a new send task.\<close>

definition guard_drop :: "'v rkyv list \<Rightarrow> 'v state_guard \<Rightarrow> state_update list option outcome" where
  "guard_drop cs g =
     and_then (collect_changes cs 0 (guard_state g) (starting_state g))
       (\<lambda>changes. Returns (if changes = [] then None else Some changes))"

section \<open>The client's side: \<open>apply_changes\<close>\<close>

text \<open>
  The loop stops at the first update that does not decode, keeping the updates before it; an index
  that is no field's is skipped.
\<close>

fun apply_changes ::
  "'v rkyv list \<Rightarrow> 'v list \<Rightarrow> state_update list \<Rightarrow> 'v list \<times> unit handler_result" where
  "apply_changes cs s [] = (s, Inr ())"
| "apply_changes cs s (u # us) =
     (if index u < length cs
      then (case from_bytes (cs ! index u) (data u) of
              None \<Rightarrow> (s, Inl ClientDecodeError)
            | Some v \<Rightarrow> apply_changes cs (s[index u := v]) us)
      else apply_changes cs s us)"

section \<open>A sequence of writes\<close>

text \<open>
  Handlers take the write guard one after the other (the guard holds the lock until it is
  dropped). A write is given by the state it leaves; the result is the final controller and the
  batches handed to send tasks, in the order of the writes.
\<close>

fun run_writes ::
  "'v rkyv list \<Rightarrow> 'v state_controller \<Rightarrow> 'v list list \<Rightarrow> ('v state_controller \<times> state_update list list) outcome" where
  "run_writes cs c [] = Returns (c, [])"
| "run_writes cs c (s # ss) =
     (let g = guard_deref_mut (\<lambda>_. s) (controller_write c) in
      and_then (guard_drop cs g) (\<lambda>batch.
        and_then (run_writes cs (c\<lparr>ctl_state := guard_state g\<rparr>) ss) (\<lambda>(c', batches).
          Returns (c', (case batch of None \<Rightarrow> batches | Some b \<Rightarrow> b # batches)))))"

text \<open>The client applies each batch it receives; an error is logged and the loop goes on.\<close>

fun apply_batches :: "'v rkyv list \<Rightarrow> 'v list \<Rightarrow> state_update list list \<Rightarrow> 'v list" where
  "apply_batches cs s [] = s"
| "apply_batches cs s (b # bs) = apply_batches cs (fst (apply_changes cs s b)) bs"

section \<open>What one drop sends\<close>

lemma collect_changes_apply_gen:
  assumes "list_all rkyv_law cs" "length new = length cs" "length old = length cs"
    and "length ps = length ds" "collect_changes cs (length ds) new old = Returns us"
  shows "apply_changes (ds @ cs) (ps @ old) us = (ps @ new, Inr ())"
  using assms
proof (induction cs arbitrary: new old ds ps us)
  case Nil
  then show ?case by simp
next
  case (Cons c cs)
  obtain n ns where new: "new = n # ns" using Cons.prems by (cases new) auto
  obtain m ms where old: "old = m # ms" using Cons.prems by (cases old) auto
  have IH: "collect_changes cs (Suc (length ds)) ns ms = Returns us' \<Longrightarrow>
      apply_changes (ds @ c # cs) (ps @ n # ms) us' = (ps @ n # ns, Inr ())" for us'
    using Cons.IH [of ns ms "ps @ [n]" "ds @ [c]" us'] Cons.prems new old by simp
  show ?case
  proof (cases "n = m")
    case True
    then show ?thesis using IH Cons.prems new old by simp
  next
    case False
    then obtain b us' where b: "to_bytes c n = Some b"
      and us': "collect_changes cs (Suc (length ds)) ns ms = Returns us'"
      and us: "us = \<lparr>index = length ds, data = b\<rparr> # us'"
      using Cons.prems new old by (auto simp: and_then_Returns_iff)
    have "from_bytes c b = Some n" using Cons.prems(1) b by (simp add: rkyv_lawD)
    then show ?thesis using IH [OF us'] Cons.prems(4) new old us by (simp add: nth_append list_update_append)
  qed
qed

lemma collect_changes_apply:
  assumes "list_all rkyv_law cs" "length new = length cs" "length old = length cs"
    and "collect_changes cs 0 new old = Returns us"
  shows "apply_changes cs old us = (new, Inr ())"
  using collect_changes_apply_gen [of cs new old "[]" "[]" us] assms by simp

lemma collect_changes_Nil_gen:
  "length new = length cs \<Longrightarrow> length old = length cs \<Longrightarrow>
   collect_changes cs i new old = Returns [] \<longleftrightarrow> new = old"
proof (induction cs i new old rule: collect_changes.induct)
  case (1 c cs i new news old olds)
  then show ?case by (auto simp: and_then_Returns_iff)
qed auto

lemma collect_changes_index_list_gen:
  "length new = length cs \<Longrightarrow> length old = length cs \<Longrightarrow>
   collect_changes cs i new old = Returns us \<Longrightarrow>
   map index us = map ((+) i) (filter (\<lambda>j. new ! j \<noteq> old ! j) [0..<length cs])"
proof (induction cs i new old arbitrary: us rule: collect_changes.induct)
  case (1 c cs i new news old olds)
  have upt: "[0..<length (c # cs)] = 0 # map Suc [0..<length cs]"
    by (simp add: upt_conv_Cons map_Suc_upt del: upt_Suc)
  show ?case
    using 1 unfolding upt
    by (auto simp: and_then_Returns_iff filter_map comp_def split: if_splits)
qed auto

lemma collect_changes_index_list:
  assumes "length new = length cs" "length old = length cs" "collect_changes cs 0 new old = Returns us"
  shows "map index us = filter (\<lambda>j. new ! j \<noteq> old ! j) [0..<length cs]"
  using collect_changes_index_list_gen [OF assms] by (simp add: map_idI)

lemma collect_changes_total:
  "(\<And>c v. c \<in> set cs \<Longrightarrow> to_bytes c v \<noteq> None) \<Longrightarrow> \<exists>us. collect_changes cs i new old = Returns us"
proof (induction cs i new old rule: collect_changes.induct)
  case (1 c cs i new news old olds)
  obtain b where "to_bytes c new = Some b" using "1.prems" [of c new] by auto
  moreover obtain us where "collect_changes cs (Suc i) news olds = Returns us"
    using "1.IH" "1.prems" by (metis list.set_intros(2))
  ultimately show ?case by simp
qed auto

section \<open>Many drops, applied in order\<close>

text \<open>
  The interface the client runtime relies on (the trait \<open>ClientState\<close>): applying no update
  changes nothing, and applying a longer list is applying its parts in turn, up to the first error.
\<close>

locale client_state =
  fixes apply_upd :: "'st \<Rightarrow> state_update list \<Rightarrow> 'st \<times> unit handler_result"
  assumes apply_Nil: "apply_upd s [] = (s, Inr ())"
    and apply_append: "apply_upd s (us @ vs) =
      (case apply_upd s us of (s', Inl e) \<Rightarrow> (s', Inl e) | (s', Inr _) \<Rightarrow> apply_upd s' vs)"
begin

text \<open>Batches that all apply act as their concatenation.\<close>

lemma fold_batches_concat:
  "apply_upd s (concat bs) = (s', Inr ()) \<Longrightarrow> fold (\<lambda>b s. fst (apply_upd s b)) bs s = s'"
proof (induction bs arbitrary: s)
  case Nil
  then show ?case by (simp add: apply_Nil)
next
  case (Cons b bs)
  then show ?case
    by (auto simp: apply_append split: prod.splits sum.splits)
qed

end

lemma apply_changes_append:
  "apply_changes cs s (us @ vs) =
     (case apply_changes cs s us of (s', Inl e) \<Rightarrow> (s', Inl e) | (s', Inr _) \<Rightarrow> apply_changes cs s' vs)"
  by (induction cs s us rule: apply_changes.induct) (auto split: option.splits)

interpretation generated_state: client_state "apply_changes cs" for cs
  by unfold_locales (simp_all add: apply_changes_append)

lemma length_apply_changes [simp]: "length (fst (apply_changes cs s us)) = length s"
  by (induction cs s us rule: apply_changes.induct) (auto split: option.splits)

lemma apply_batches_fold: "apply_batches cs s bs = fold (\<lambda>b s. fst (apply_changes cs s b)) bs s"
  by (induction bs arbitrary: s) auto

lemma run_writes_apply:
  assumes "list_all rkyv_law cs" "length (ctl_state c) = length cs"
    and "\<And>s. s \<in> set ss \<Longrightarrow> length s = length cs"
    and "run_writes cs c ss = Returns (c', batches)"
  shows "apply_changes cs (ctl_state c) (concat batches) = (ctl_state c', Inr ())
    \<and> ctl_state c' = last (ctl_state c # ss) \<and> [] \<notin> set batches"
  using assms(2-)
proof (induction ss arbitrary: c batches)
  case Nil
  then show ?case by simp
next
  case (Cons s ss)
  obtain us bs where us: "collect_changes cs 0 s (ctl_state c) = Returns us"
    and bs: "run_writes cs (c\<lparr>ctl_state := s\<rparr>) ss = Returns (c', bs)"
    and batches: "batches = (if us = [] then bs else us # bs)"
    using Cons.prems(3)
    by (auto simp: and_then_Returns_iff guard_drop_def guard_deref_mut_def controller_write_def
        split: if_splits)
  have s: "apply_changes cs (ctl_state c) us = (s, Inr ())"
    using assms(1) Cons.prems us by (intro collect_changes_apply) auto
  have "apply_changes cs s (concat bs) = (ctl_state c', Inr ())
      \<and> ctl_state c' = last (s # ss) \<and> [] \<notin> set bs"
    using Cons.IH [of "c\<lparr>ctl_state := s\<rparr>" bs] Cons.prems(2) bs by simp
  moreover have "concat batches = us @ concat bs" by (simp add: batches)
  ultimately show ?case using s batches by (simp add: apply_changes_append)
qed

lemma run_writes_total:
  assumes "\<And>c v. c \<in> set cs \<Longrightarrow> to_bytes c v \<noteq> None"
  shows "\<exists>r. run_writes cs c ss = Returns r"
proof (induction ss arbitrary: c)
  case Nil
  then show ?case by simp
next
  case (Cons s ss)
  obtain us where "collect_changes cs 0 s (ctl_state c) = Returns us"
    using collect_changes_total assms by blast
  moreover obtain c' bs where "run_writes cs (c\<lparr>ctl_state := s\<rparr>) ss = Returns (c', bs)"
    using Cons.IH by fast
  ultimately show ?case
    by (simp add: guard_drop_def guard_deref_mut_def controller_write_def)
qed

section \<open>Batches out of order\<close>

text \<open>What a list of updates makes of one field, whatever the other fields hold.\<close>

fun field_after :: "'v rkyv list \<Rightarrow> state_update list \<Rightarrow> nat \<Rightarrow> 'v \<Rightarrow> 'v" where
  "field_after cs [] i v = v"
| "field_after cs (u # us) i v =
     (if index u < length cs
      then (case from_bytes (cs ! index u) (data u) of
              None \<Rightarrow> v
            | Some w \<Rightarrow> field_after cs us i (if index u = i then w else v))
      else field_after cs us i v)"

lemma apply_changes_nth:
  "i < length s \<Longrightarrow> fst (apply_changes cs s us) ! i = field_after cs us i (s ! i)"
  by (induction cs s us rule: apply_changes.induct) (auto simp: nth_list_update split: option.splits)

definition touches :: "state_update list \<Rightarrow> nat set" where
  "touches us = index ` set us"

lemma field_after_untouched: "i \<notin> touches us \<Longrightarrow> field_after cs us i v = v"
  by (induction cs us i v rule: field_after.induct) (auto simp: touches_def split: option.splits)

lemma field_after_touched:
  assumes "snd (apply_changes cs s us) = Inr ()" "i \<in> touches us" "i < length cs"
  shows "field_after cs us i v = field_after cs us i w"
  using assms
proof (induction us arbitrary: s v w)
  case (Cons u us)
  show ?case
  proof (cases "index u = i")
    case True
    then show ?thesis using Cons.prems by (auto split: option.splits)
  next
    case False
    then have "i \<in> touches us" using Cons.prems(2) by (auto simp: touches_def)
    then show ?thesis using Cons False by (auto split: if_splits option.splits)
  qed
qed (simp add: touches_def)

text \<open>One drop's batch, applied to any value of a field: its new value if it changed.\<close>

lemma collect_changes_field:
  assumes "list_all rkyv_law cs" "length new = length cs" "length old = length cs"
    and "collect_changes cs 0 new old = Returns us" "i < length cs"
  shows "field_after cs us i v = (if new ! i \<noteq> old ! i then new ! i else v)"
proof -
  have ap: "apply_changes cs old us = (new, Inr ())" by (rule collect_changes_apply [OF assms(1-4)])
  have "set (map index us) = {j. j < length cs \<and> new ! j \<noteq> old ! j}"
    unfolding collect_changes_index_list [OF assms(2-4)] by auto
  then have t: "i \<in> touches us \<longleftrightarrow> new ! i \<noteq> old ! i" using assms(5) by (simp add: touches_def)
  have "field_after cs us i (old ! i) = new ! i" using apply_changes_nth [of i old cs us] ap assms(3,5) by simp
  then show ?thesis using t field_after_touched [of cs old us i v "old ! i"] field_after_untouched [of i us cs v] ap assms(5) by auto
qed

lemma apply_changes_commute:
  assumes "touches us \<inter> touches vs = {}"
  shows "fst (apply_changes cs (fst (apply_changes cs s us)) vs)
       = fst (apply_changes cs (fst (apply_changes cs s vs)) us)"
proof (rule nth_equalityI)
  fix i
  assume "i < length (fst (apply_changes cs (fst (apply_changes cs s us)) vs))"
  then have i: "i < length s" by simp
  consider "i \<notin> touches us" | "i \<notin> touches vs" using assms by blast
  then show "fst (apply_changes cs (fst (apply_changes cs s us)) vs) ! i
      = fst (apply_changes cs (fst (apply_changes cs s vs)) us) ! i"
    by cases (simp_all add: i apply_changes_nth field_after_untouched)
qed simp

section \<open>Properties\<close>

text \<open>
  C10: state synchronisation. From equal states, however many write guards the handlers take and
  whatever they change, the client that applies the batches in the order of the writes ends in the
  server's state; no batch is empty and no batch fails to apply.
\<close>

theorem state_sync_in_order:
  assumes "list_all rkyv_law cs" and "\<forall>c \<in> set cs. \<forall>v. to_bytes c v \<noteq> None"
    and "length s0 = length cs" and "\<forall>s \<in> set ss. length s = length cs"
  shows "\<exists>c' batches. run_writes cs (controller_new s0) ss = Returns (c', batches)
    \<and> apply_batches cs s0 batches = controller_read c'
    \<and> snd (apply_changes cs s0 (concat batches)) = Inr ()
    \<and> controller_read c' = last (s0 # ss) \<and> [] \<notin> set batches"
proof -
  obtain c' batches where r: "run_writes cs (controller_new s0) ss = Returns (c', batches)"
    using run_writes_total [of cs "controller_new s0" ss] assms(2) by fast
  from run_writes_apply [OF assms(1) _ _ r] assms(3,4)
  have "apply_changes cs s0 (concat batches) = (ctl_state c', Inr ())
      \<and> ctl_state c' = last (s0 # ss) \<and> [] \<notin> set batches"
    by (simp add: controller_new_def)
  with r show ?thesis
    using generated_state.fold_batches_concat [of cs s0 batches "ctl_state c'"]
    by (auto simp: controller_read_def apply_batches_fold)
qed

theorem state_sync_in_order_witness:
  "run_writes [byte_rkyv, byte_rkyv] (controller_new [0, 0]) [[1, 0], [1, 0], [2, 5]]
     = Returns (\<lparr>ctl_state = [2, 5]\<rparr>, [[\<lparr>index = 0, data = [1]\<rparr>],
         [\<lparr>index = 0, data = [2]\<rparr>, \<lparr>index = 1, data = [5]\<rparr>]])
   \<and> (\<exists>c' batches.
        run_writes [byte_rkyv, byte_rkyv] (controller_new [0, 0]) [[1, 0], [1, 0], [2, 5]] = Returns (c', batches)
        \<and> apply_batches [byte_rkyv, byte_rkyv] [0, 0] batches = controller_read c'
        \<and> controller_read c' = [2, 5])"
proof -
  have run: "run_writes [byte_rkyv, byte_rkyv] (controller_new [0, 0]) [[1, 0], [1, 0], [2, 5]]
     = Returns (\<lparr>ctl_state = [2, 5]\<rparr>, [[\<lparr>index = 0, data = [1]\<rparr>],
         [\<lparr>index = 0, data = [2]\<rparr>, \<lparr>index = 1, data = [5]\<rparr>]])"
    by (simp add: guard_drop_def guard_deref_mut_def controller_write_def controller_new_def byte_rkyv_def)
  have "list_all rkyv_law [byte_rkyv, byte_rkyv]" by (simp add: byte_rkyv_law)
  moreover have "\<forall>c \<in> set [byte_rkyv, byte_rkyv]. \<forall>v. to_bytes c v \<noteq> None"
    by (simp add: byte_rkyv_def)
  ultimately show ?thesis
    using run state_sync_in_order [of "[byte_rkyv, byte_rkyv]" "[0, 0]" "[[1, 0], [1, 0], [2, 5]]"]
    by fastforce
qed

text \<open>
  One drop sends a field exactly when it changed: nothing at all when the state is unchanged,
  and otherwise one update per changed field, in field order, carrying the new value.
\<close>

theorem guard_drop_sends_changed_fields:
  assumes "list_all rkyv_law cs" and "\<forall>c \<in> set cs. \<forall>v. to_bytes c v \<noteq> None"
    and "length (guard_state g) = length cs" and "length (starting_state g) = length cs"
  shows "(guard_drop cs g = Returns None \<longleftrightarrow> guard_state g = starting_state g)
    \<and> (\<forall>us. guard_drop cs g = Returns (Some us) \<longrightarrow>
         apply_changes cs (starting_state g) us = (guard_state g, Inr ())
       \<and> map index us = filter (\<lambda>i. guard_state g ! i \<noteq> starting_state g ! i) [0..<length cs])"
proof -
  obtain us where us: "collect_changes cs 0 (guard_state g) (starting_state g) = Returns us"
    using collect_changes_total assms(2) by blast
  have "map index us = filter (\<lambda>i. guard_state g ! i \<noteq> starting_state g ! i) [0..<length cs]"
    using collect_changes_index_list [OF _ _ us] assms(3,4) by simp
  then show ?thesis
    using us collect_changes_apply [OF assms(1,3,4) us]
      collect_changes_Nil_gen [OF assms(3,4), of 0]
    by (auto simp: guard_drop_def)
qed

theorem guard_drop_sends_changed_fields_witness:
  "guard_drop [byte_rkyv, byte_rkyv] \<lparr>guard_state = [3, 4], starting_state = [3, 9]\<rparr>
     = Returns (Some [\<lparr>index = 1, data = [4]\<rparr>])
   \<and> apply_changes [byte_rkyv, byte_rkyv] [3, 9] [\<lparr>index = 1, data = [4]\<rparr>] = ([3, 4], Inr ())"
proof -
  let ?g = "\<lparr>guard_state = [3, 4], starting_state = [3, 9]\<rparr> :: u8 state_guard"
  have d: "guard_drop [byte_rkyv, byte_rkyv] ?g = Returns (Some [\<lparr>index = 1, data = [4]\<rparr>])"
    by (simp add: guard_drop_def byte_rkyv_def)
  have "list_all rkyv_law [byte_rkyv, byte_rkyv]" by (simp add: byte_rkyv_law)
  moreover have "\<forall>c \<in> set [byte_rkyv, byte_rkyv]. \<forall>v. to_bytes c v \<noteq> None"
    by (simp add: byte_rkyv_def)
  ultimately show ?thesis
    using d guard_drop_sends_changed_fields [of "[byte_rkyv, byte_rkyv]" ?g] by simp
qed

text \<open>
  Each batch is sent by a task of its own, so batches may arrive in another order. As long as
  different batches change different fields, the client's state does not depend on the order.
\<close>

theorem batches_commute_when_disjoint:
  assumes "\<forall>a \<in> set bs. \<forall>b \<in> set bs. a \<noteq> b \<longrightarrow> touches a \<inter> touches b = {}"
    and "mset bs' = mset bs"
  shows "apply_batches cs s bs' = apply_batches cs s bs"
proof -
  let ?f = "\<lambda>b s. fst (apply_changes cs s b)"
  have "?f a \<circ> ?f b = ?f b \<circ> ?f a" if "a \<in> set bs" "b \<in> set bs" for a b
  proof (cases "a = b")
    case False
    then have "touches b \<inter> touches a = {}" using assms(1) that by blast
    then show ?thesis by (auto simp: apply_changes_commute)
  qed simp
  then have "fold ?f bs = fold ?f bs'"
    using assms(2) by (intro fold_multiset_equiv) auto
  then show ?thesis by (simp add: apply_batches_fold)
qed

theorem batches_commute_when_disjoint_witness:
  "apply_batches [byte_rkyv, byte_rkyv] [0, 0] [[\<lparr>index = 1, data = [7]\<rparr>], [\<lparr>index = 0, data = [3]\<rparr>]]
   = apply_batches [byte_rkyv, byte_rkyv] [0, 0] [[\<lparr>index = 0, data = [3]\<rparr>], [\<lparr>index = 1, data = [7]\<rparr>]]"
  by (rule batches_commute_when_disjoint) (auto simp: touches_def)

text \<open>
  C37: two batches that arrive in the other order. For any two writes that both send a batch, the client
  that receives the second batch first ends with every field the first write changed at the value of
  that write, also where the second write has overwritten it, and the other fields as the server has
  them; so its state is the server's exactly when no field was changed by both writes.
\<close>

theorem reordered_batches_diverge:
  assumes "list_all rkyv_law cs" and "length s0 = length cs" and "length s1 = length cs" and "length s2 = length cs"
    and "run_writes cs (controller_new s0) [s1, s2] = Returns (c', [b1, b2])"
  shows "controller_read c' = s2 \<and> apply_batches cs s0 [b1, b2] = s2
    \<and> (\<forall>i < length cs. apply_batches cs s0 [b2, b1] ! i = (if s1 ! i \<noteq> s0 ! i then s1 ! i else s2 ! i))
    \<and> (apply_batches cs s0 [b2, b1] = s2 \<longleftrightarrow> (\<forall>i < length cs. s1 ! i \<noteq> s0 ! i \<longrightarrow> s2 ! i = s1 ! i))"
proof -
  have c: "collect_changes cs 0 s1 s0 = Returns b1" "collect_changes cs 0 s2 s1 = Returns b2" "c' = \<lparr>ctl_state = s2\<rparr>"
    using assms(5) by (auto simp: and_then_Returns_iff guard_drop_def guard_deref_mut_def controller_write_def
        controller_new_def split: if_splits option.splits)
  let ?t = "apply_batches cs s0 [b2, b1]"
  have t: "?t ! i = (if s1 ! i \<noteq> s0 ! i then s1 ! i else s2 ! i)" if "i < length cs" for i
    using that assms(2) collect_changes_field [OF assms(1,3,2) c(1) that] collect_changes_field [OF assms(1,4,3) c(2) that]
    by (simp add: apply_changes_nth)
  moreover have "?t = s2 \<longleftrightarrow> (\<forall>i < length cs. ?t ! i = s2 ! i)"
    using assms(2,4) by (auto simp: list_eq_iff_nth_eq)
  moreover have "apply_batches cs s0 [b1, b2] = s2"
    using collect_changes_apply [OF assms(1,3,2) c(1)] collect_changes_apply [OF assms(1,4,3) c(2)] by simp
  ultimately show ?thesis using c(3) by (auto simp: controller_read_def simp del: apply_batches.simps)
qed

theorem reordered_batches_diverge_witness:
  "let t = apply_batches [byte_rkyv, byte_rkyv] [0, 0] [[\<lparr>index = 0, data = [2]\<rparr>, \<lparr>index = 1, data = [5]\<rparr>], [\<lparr>index = 0, data = [1]\<rparr>]]
   in t ! 0 = 1 \<and> t ! 1 = 5 \<and> t \<noteq> [2, 5]"
proof -
  let ?cs = "[byte_rkyv, byte_rkyv]"
  have run: "run_writes ?cs (controller_new [0, 0]) [[1, 0], [2, 5]]
     = Returns (\<lparr>ctl_state = [2, 5]\<rparr>, [[\<lparr>index = 0, data = [1]\<rparr>], [\<lparr>index = 0, data = [2]\<rparr>, \<lparr>index = 1, data = [5]\<rparr>]])"
    by (simp add: guard_drop_def guard_deref_mut_def controller_write_def controller_new_def byte_rkyv_def)
  have "list_all rkyv_law ?cs" by (simp add: byte_rkyv_law)
  from reordered_batches_diverge [OF this _ _ _ run] show ?thesis by (simp add: less_Suc_eq all_conj_distrib imp_disjL Let_def del: apply_batches.simps)
qed
text \<open>
  Updates that do not decode stop the batch: the updates before the bad one stay applied, the
  ones after it are lost, the error is \<open>ClientDecodeError\<close>; and updates for indices that are no
  field of the struct change nothing.
\<close>

theorem apply_changes_bad_update:
  assumes "apply_changes cs s us = (s', Inr ())" and "index u < length cs"
    and "from_bytes (cs ! index u) (data u) = None"
    and "\<forall>w \<in> set ws. length cs \<le> index w"
  shows "apply_changes cs s (us @ u # vs) = (s', Inl ClientDecodeError)
    \<and> apply_changes cs s (us @ ws) = (s', Inr ())"
proof -
  have "apply_changes cs s' ws = (s', Inr ())"
    using assms(4) by (induction ws) auto
  then show ?thesis using assms(1-3) by (simp add: apply_changes_append)
qed

theorem apply_changes_bad_update_witness:
  "apply_changes [byte_rkyv] [0] ([\<lparr>index = 0, data = [1]\<rparr>] @ \<lparr>index = 0, data = []\<rparr> # [\<lparr>index = 0, data = [2]\<rparr>])
     = ([1], Inl ClientDecodeError)
   \<and> apply_changes [byte_rkyv] [0] ([\<lparr>index = 0, data = [1]\<rparr>] @ [\<lparr>index = 4, data = [2]\<rparr>]) = ([1], Inr ())"
  by (rule apply_changes_bad_update) (simp_all add: byte_rkyv_def)

end
