(* ===== verification/HL_Switch.thy ===== *)
theory HL_Switch
  imports HL_Wire
begin

text \<open>
  The event switch of \<open>src/server.rs\<close>: it keeps, for every topic, the subscribed connections with
  the senders of their event channels, routes the application's events to them and tells the
  application when topics appear and disappear. The hash map's iteration order is a parameter.
\<close>

section \<open>State and operations\<close>

type_synonym subscribers = "(subscription_id \<times> event_sender) list"

record event_switch =
  sw_subs :: "topic \<rightharpoonup> subscribers"

definition switch_new :: event_switch where
  "switch_new = \<lparr>sw_subs = Map.empty\<rparr>"

text \<open>
  The send loop over a topic's subscribers: the senders that took the event, and the identifiers
  to remove because their receiver is gone (\<open>alive\<close> says which receivers still exist).
\<close>

fun send_all :: "(event_sender \<Rightarrow> bool) \<Rightarrow> subscribers \<Rightarrow> event_sender list \<times> subscription_id list" where
  "send_all alive [] = ([], [])"
| "send_all alive ((i, tx) # r) =
     (let (sent, subs_to_remove) = send_all alive r in
      if alive tx then (tx # sent, subs_to_remove) else (sent, i # subs_to_remove))"

definition switch_event ::
  "(subscribers \<Rightarrow> subscribers) \<Rightarrow> (event_sender \<Rightarrow> bool) \<Rightarrow> event \<Rightarrow> event_switch \<Rightarrow>
   event_switch \<times> (event_sender \<times> event) list" where
  "switch_event iter alive ev sw =
     (case sw_subs sw (ev_topic ev) of
        None \<Rightarrow> (sw, [])
      | Some subscribers \<Rightarrow>
          (let (sent, subs_to_remove) = send_all alive (iter subscribers);
               subscribers' = fold hm_remove subs_to_remove subscribers
           in (sw\<lparr>sw_subs := (sw_subs sw)(ev_topic ev \<mapsto> subscribers')\<rparr>, map (\<lambda>tx. (tx, ev)) sent)))"

fun switch_notify ::
  "subscription_notification \<Rightarrow> event_switch \<Rightarrow> event_switch \<times> topic_notification list" where
  "switch_notify (SnSubscribe t i tx) sw =
     (let subscribers = hm_insert i tx (case sw_subs sw t of None \<Rightarrow> [] | Some s \<Rightarrow> s)
      in (sw\<lparr>sw_subs := (sw_subs sw)(t \<mapsto> subscribers)\<rparr>,
          if length subscribers = 1 then [Created t] else []))"
| "switch_notify (SnUnsubscribe t i) sw =
     (case sw_subs sw t of
        None \<Rightarrow> (sw, [])
      | Some s \<Rightarrow>
          (let subscribers = hm_remove i s in
           if subscribers = [] then (sw\<lparr>sw_subs := (sw_subs sw)(t := None)\<rparr>, [Removed t])
           else (sw\<lparr>sw_subs := (sw_subs sw)(t \<mapsto> subscribers)\<rparr>, [])))"

section \<open>The loop\<close>

datatype switch_input = SwEvent event | SwNotify subscription_notification

datatype switch_output = SwDeliver event_sender event | SwTopic topic_notification

text \<open>\<open>select!\<close> is biased: an event that is ready is taken before a notification that is ready.\<close>

fun switch_select :: "event option \<Rightarrow> subscription_notification option \<Rightarrow> switch_input option" where
  "switch_select (Some ev) _ = Some (SwEvent ev)"
| "switch_select None (Some n) = Some (SwNotify n)"
| "switch_select None None = None"

fun switch_step ::
  "(subscribers \<Rightarrow> subscribers) \<Rightarrow> (event_sender \<Rightarrow> bool) \<Rightarrow> switch_input \<Rightarrow> event_switch \<Rightarrow>
   event_switch \<times> switch_output list" where
  "switch_step iter alive (SwEvent ev) sw =
     (let (sw', sent) = switch_event iter alive ev sw in (sw', map (\<lambda>(tx, e). SwDeliver tx e) sent))"
| "switch_step iter alive (SwNotify n) sw =
     (let (sw', ns) = switch_notify n sw in (sw', map SwTopic ns))"

text \<open>A run: each input comes with the receivers that are alive when it is handled.\<close>

fun switch_run ::
  "(subscribers \<Rightarrow> subscribers) \<Rightarrow> ((event_sender \<Rightarrow> bool) \<times> switch_input) list \<Rightarrow> event_switch \<Rightarrow>
   event_switch \<times> switch_output list" where
  "switch_run iter [] sw = (sw, [])"
| "switch_run iter ((alive, inp) # ins) sw =
     (let (sw', out) = switch_step iter alive inp sw;
          (sw'', outs) = switch_run iter ins sw'
      in (sw'', out @ outs))"

section \<open>Invariant\<close>

text \<open>
  The keys of a subscriber map are distinct. \<open>sw_tidy\<close> adds that no topic is kept without
  subscribers, which holds as long as no send has failed.
\<close>

definition sw_inv :: "event_switch \<Rightarrow> bool" where
  "sw_inv sw \<longleftrightarrow> (\<forall>t s. sw_subs sw t = Some s \<longrightarrow> distinct (map fst s))"

definition sw_tidy :: "event_switch \<Rightarrow> bool" where
  "sw_tidy sw \<longleftrightarrow> sw_inv sw \<and> (\<forall>t. sw_subs sw t \<noteq> Some [])"

text \<open>The subscriptions as a map of maps: the view the rest of the system relies on.\<close>

definition subscriptions_of :: "event_switch \<Rightarrow> topic \<Rightarrow> subscription_id \<rightharpoonup> event_sender" where
  "subscriptions_of sw t = (case sw_subs sw t of None \<Rightarrow> Map.empty | Some s \<Rightarrow> map_of s)"

lemma sw_inv_new [simp]: "sw_inv switch_new"
  by (simp add: sw_inv_def switch_new_def)

lemma sw_tidy_new [simp]: "sw_tidy switch_new"
  by (simp add: sw_tidy_def) (simp add: switch_new_def)

lemma send_all_eq:
  "send_all alive xs =
     (map snd (filter (\<lambda>p. alive (snd p)) xs), map fst (filter (\<lambda>p. \<not> alive (snd p)) xs))"
  by (induction xs) auto

lemma fold_hm_remove: "fold hm_remove is xs = filter (\<lambda>p. fst p \<notin> set is) xs"
  by (induction "is" arbitrary: xs) (auto simp: hm_remove_def intro!: filter_cong)

text \<open>After an event, a topic keeps exactly the subscribers whose receiver is alive.\<close>

lemma remove_dead:
  assumes "iter_law iter" "distinct (map fst s)"
  shows "fold hm_remove (snd (send_all alive (iter s))) s = filter (\<lambda>p. alive (snd p)) s"
proof -
  have "fst p \<in> fst ` {q \<in> set s. \<not> alive (snd q)} \<longleftrightarrow> \<not> alive (snd p)" if "p \<in> set s" for p
  proof -
    have "q = p" if "q \<in> set s" "fst q = fst p" for q
      using assms(2) that \<open>p \<in> set s\<close> by (metis eq_key_imp_eq_value prod.collapse)
    then show ?thesis using that by fastforce
  qed
  then show ?thesis
    by (auto simp: send_all_eq fold_hm_remove set_iter [OF assms(1)] intro!: filter_cong)
qed

lemma switch_event_subs:
  assumes "iter_law iter" "sw_inv sw"
  shows "sw_subs (fst (switch_event iter alive ev sw)) =
    (sw_subs sw)(ev_topic ev := map_option (filter (\<lambda>p. alive (snd p))) (sw_subs sw (ev_topic ev)))"
proof (cases "sw_subs sw (ev_topic ev)")
  case None
  then show ?thesis by (auto simp: switch_event_def fun_eq_iff)
next
  case (Some s)
  then have "distinct (map fst s)" using assms(2) by (simp add: sw_inv_def)
  with Some remove_dead [OF assms(1)] show ?thesis
    by (simp add: switch_event_def split_beta Let_def)
qed

lemma switch_event_inv: "iter_law iter \<Longrightarrow> sw_inv sw \<Longrightarrow> sw_inv (fst (switch_event iter alive ev sw))"
  by (auto simp: switch_event_subs sw_inv_def distinct_map_filter)

lemma switch_notify_inv: "sw_inv sw \<Longrightarrow> sw_inv (fst (switch_notify n sw))"
  by (cases n) (auto simp: sw_inv_def Let_def split: option.splits)

lemma switch_notify_tidy: "sw_tidy sw \<Longrightarrow> sw_tidy (fst (switch_notify n sw))"
  using switch_notify_inv [of sw n]
  by (cases n) (auto simp: sw_tidy_def Let_def split: option.splits)

lemma switch_event_all_alive:
  assumes "iter_law iter" "sw_inv sw" "\<And>tx. alive tx"
  shows "fst (switch_event iter alive ev sw) = sw"
proof -
  have "sw_subs (fst (switch_event iter alive ev sw)) = sw_subs sw"
    using assms(3) by (cases "sw_subs sw (ev_topic ev)")
      (auto simp: switch_event_subs [OF assms(1,2)] fun_eq_iff)
  then show ?thesis by simp
qed

lemma switch_step_inv: "iter_law iter \<Longrightarrow> sw_inv sw \<Longrightarrow> sw_inv (fst (switch_step iter alive inp sw))"
  using switch_event_inv [of iter sw] switch_notify_inv [of sw]
  by (cases inp) (auto simp: split_beta)

section \<open>The registry the connections rely on\<close>

fun sn_id :: "subscription_notification \<Rightarrow> subscription_id" where
  "sn_id (SnSubscribe t i tx) = i"
| "sn_id (SnUnsubscribe t i) = i"

fun sn_topic :: "subscription_notification \<Rightarrow> topic" where
  "sn_topic (SnSubscribe t i tx) = t"
| "sn_topic (SnUnsubscribe t i) = t"

text \<open>What a sequence of notifications says about one subscription.\<close>

fun registered ::
  "topic \<Rightarrow> subscription_id \<Rightarrow> event_sender option \<Rightarrow> subscription_notification list \<Rightarrow> event_sender option" where
  "registered t i v [] = v"
| "registered t i v (SnSubscribe t' i' tx # ns) =
     registered t i (if t' = t \<and> i' = i then Some tx else v) ns"
| "registered t i v (SnUnsubscribe t' i' # ns) =
     registered t i (if t' = t \<and> i' = i then None else v) ns"

locale topic_registry =
  fixes notify :: "subscription_notification \<Rightarrow> 'r \<Rightarrow> 'r"
    and subs :: "'r \<Rightarrow> topic \<Rightarrow> subscription_id \<rightharpoonup> event_sender"
    and inv :: "'r \<Rightarrow> bool"
  assumes subs_subscribe:
      "inv r \<Longrightarrow> subs (notify (SnSubscribe t i tx) r) = (subs r)(t := (subs r t)(i \<mapsto> tx))"
    and subs_unsubscribe:
      "inv r \<Longrightarrow> subs (notify (SnUnsubscribe t i) r) = (subs r)(t := (subs r t)(i := None))"
    and inv_notify: "inv r \<Longrightarrow> inv (notify n r)"
begin

lemma subs_fold: "inv r \<Longrightarrow> subs (fold notify ns r) t i = registered t i (subs r t i) ns"
proof (induction ns arbitrary: r)
  case (Cons n ns)
  then show ?case by (cases n) (auto simp: subs_subscribe subs_unsubscribe inv_notify)
qed simp

end

lemma subscriptions_of_subscribe:
  "subscriptions_of (fst (switch_notify (SnSubscribe t i tx) sw)) =
     (subscriptions_of sw)(t := (subscriptions_of sw t)(i \<mapsto> tx))"
  by (cases "sw_subs sw t") (simp_all add: subscriptions_of_def fun_eq_iff Let_def)

lemma subscriptions_of_unsubscribe:
  "subscriptions_of (fst (switch_notify (SnUnsubscribe t i) sw)) =
     (subscriptions_of sw)(t := (subscriptions_of sw t)(i := None))"
proof (cases "sw_subs sw t")
  case None
  then show ?thesis by (simp add: subscriptions_of_def fun_eq_iff)
next
  case (Some s)
  have "map_of (hm_remove i s) = (map_of s)(i := None)" by simp
  then have "(map_of s)(i := None) = Map.empty" if "hm_remove i s = []"
    using that by simp
  with Some show ?thesis by (simp add: subscriptions_of_def fun_eq_iff Let_def)
qed

lemmas subscriptions_of_notify = subscriptions_of_subscribe subscriptions_of_unsubscribe

interpretation switch_registry: topic_registry "\<lambda>n sw. fst (switch_notify n sw)" subscriptions_of sw_inv
  by unfold_locales (simp_all only: subscriptions_of_notify switch_notify_inv)

section \<open>Abstract registry and refinement\<close>

text \<open>
  The specification: a topic exists while somebody is subscribed to it, it is announced when its
  first subscriber arrives and its removal is announced when the last one leaves.
\<close>

type_synonym registry = "topic \<Rightarrow> subscription_id \<rightharpoonup> event_sender"

fun spec_notify :: "subscription_notification \<Rightarrow> registry \<Rightarrow> registry \<times> topic_notification list" where
  "spec_notify (SnSubscribe t i tx) r =
     (r(t := (r t)(i \<mapsto> tx)), if dom (r t) \<subseteq> {i} then [Created t] else [])"
| "spec_notify (SnUnsubscribe t i) r =
     (r(t := (r t)(i := None)), if dom (r t) \<noteq> {} \<and> dom (r t) \<subseteq> {i} then [Removed t] else [])"

fun spec_run :: "subscription_notification list \<Rightarrow> registry \<Rightarrow> registry \<times> topic_notification list" where
  "spec_run [] r = (r, [])"
| "spec_run (n # ns) r =
     (let (r', out) = spec_notify n r; (r'', outs) = spec_run ns r' in (r'', out @ outs))"

text \<open>The notifications of a run's inputs, and the topic notifications among its outputs.\<close>

fun notifications :: "((event_sender \<Rightarrow> bool) \<times> switch_input) list \<Rightarrow> subscription_notification list" where
  "notifications [] = []"
| "notifications ((a, SwNotify n) # ins) = n # notifications ins"
| "notifications ((a, SwEvent e) # ins) = notifications ins"

fun announced :: "switch_output list \<Rightarrow> topic_notification list" where
  "announced [] = []"
| "announced (SwTopic n # outs) = n # announced outs"
| "announced (SwDeliver tx e # outs) = announced outs"

lemma announced_append [simp]: "announced (xs @ ys) = announced xs @ announced ys"
  by (induction xs rule: announced.induct) auto

lemma announced_SwTopic [simp]: "announced (map SwTopic ns) = ns"
  by (induction ns) auto

lemma announced_SwDeliver [simp]: "announced (map (\<lambda>(tx, e). SwDeliver tx e) ds) = []"
  by (induction ds) auto

lemma dom_subscriptions_of: "dom (subscriptions_of sw t) = (case sw_subs sw t of None \<Rightarrow> {} | Some s \<Rightarrow> fst ` set s)"
  by (auto simp: subscriptions_of_def dom_map_of_conv_image_fst split: option.splits)

lemma subscribed_iff: "sw_tidy sw \<Longrightarrow> dom (subscriptions_of sw t) = {} \<longleftrightarrow> sw_subs sw t = None"
  by (auto simp: dom_subscriptions_of sw_tidy_def split: option.splits)

lemma switch_notify_spec:
  assumes "sw_tidy sw"
  shows "spec_notify n (subscriptions_of sw) =
    (subscriptions_of (fst (switch_notify n sw)), snd (switch_notify n sw))"
proof (cases n)
  case (SnSubscribe t i tx)
  let ?s = "case sw_subs sw t of None \<Rightarrow> [] | Some s \<Rightarrow> s"
  have "distinct (map fst ?s)"
    using assms by (auto simp: sw_tidy_def sw_inv_def split: option.splits)
  then have "length (hm_insert i tx ?s) = 1 \<longleftrightarrow> dom (subscriptions_of sw t) \<subseteq> {i}"
    by (subst length_hm_insert_eq_1) (auto simp: dom_subscriptions_of split: option.splits)
  then show ?thesis
    using SnSubscribe subscriptions_of_subscribe [of t i tx sw] by (simp add: Let_def)
next
  case (SnUnsubscribe t i)
  have "sw_subs sw t \<noteq> None \<longleftrightarrow> dom (subscriptions_of sw t) \<noteq> {}"
    by (simp only: subscribed_iff [OF assms])
  then show ?thesis
    using SnUnsubscribe subscriptions_of_unsubscribe [of t i sw]
    by (auto simp: Let_def hm_remove_eq_Nil_iff dom_subscriptions_of split: option.splits)
qed

lemma switch_run_spec:
  assumes "iter_law iter" "sw_tidy sw" "\<forall>p \<in> set ins. \<forall>tx. fst p tx"
  shows "sw_tidy (fst (switch_run iter ins sw)) \<and> spec_run (notifications ins) (subscriptions_of sw) =
    (subscriptions_of (fst (switch_run iter ins sw)), announced (snd (switch_run iter ins sw)))"
  using assms(2,3)
proof (induction ins arbitrary: sw)
  case Nil
  then show ?case by simp
next
  case (Cons p ins)
  obtain a inp where p: "p = (a, inp)" by (cases p)
  show ?case
  proof (cases inp)
    case (SwEvent e)
    have "fst (switch_event iter a e sw) = sw"
      using Cons.prems p by (intro switch_event_all_alive) (auto simp: assms(1) sw_tidy_def)
    then show ?thesis using Cons.IH [OF Cons.prems(1)] Cons.prems(2) p SwEvent by (simp add: split_beta)
  next
    case (SwNotify n)
    then show ?thesis
      using Cons p switch_notify_spec [OF Cons.prems(1), of n] switch_notify_tidy [OF Cons.prems(1), of n]
      by (simp add: split_beta)
  qed
qed

section \<open>Topic announcements alternate\<close>

text \<open>
  \<open>track t b ns\<close> follows one topic through a list of announcements, \<open>None\<close> when it is created
  while it exists or removed while it does not.
\<close>

fun track :: "topic \<Rightarrow> bool \<Rightarrow> topic_notification list \<Rightarrow> bool option" where
  "track t b [] = Some b"
| "track t b (Created t' # ns) = (if t' = t then (if b then None else track t True ns) else track t b ns)"
| "track t b (Removed t' # ns) = (if t' = t then (if b then track t False ns else None) else track t b ns)"

lemma track_append: "track t b (xs @ ys) = Option.bind (track t b xs) (\<lambda>b. track t b ys)"
  by (induction t b xs rule: track.induct) auto

fun subscribe_ids :: "subscription_notification list \<Rightarrow> subscription_id list" where
  "subscribe_ids [] = []"
| "subscribe_ids (SnSubscribe t i tx # ns) = i # subscribe_ids ns"
| "subscribe_ids (SnUnsubscribe t i # ns) = subscribe_ids ns"

lemma spec_run_track:
  assumes "distinct (subscribe_ids ns)" "\<And>u i. i \<in> set (subscribe_ids ns) \<Longrightarrow> r u i = None"
  shows "track t (dom (r t) \<noteq> {}) (snd (spec_run ns r)) = Some (dom (fst (spec_run ns r) t) \<noteq> {})"
  using assms
proof (induction ns arbitrary: r)
  case Nil
  then show ?case by simp
next
  case (Cons n ns)
  let ?r' = "fst (spec_notify n r)"
  have step: "track t (dom (r t) \<noteq> {}) (snd (spec_notify n r)) = Some (dom (?r' t) \<noteq> {})"
    using Cons.prems by (cases n) (auto simp: dom_def)
  have "track t (dom (?r' t) \<noteq> {}) (snd (spec_run ns ?r')) = Some (dom (fst (spec_run ns ?r') t) \<noteq> {})"
    using Cons.prems by (intro Cons.IH) (cases n; auto)+
  with step show ?case by (simp add: split_beta track_append)
qed

section \<open>Deliveries to one connection\<close>

fun deliveries_to :: "event_sender \<Rightarrow> switch_output list \<Rightarrow> event list" where
  "deliveries_to tx [] = []"
| "deliveries_to tx (SwDeliver tx' e # outs) =
     (if tx' = tx then e # deliveries_to tx outs else deliveries_to tx outs)"
| "deliveries_to tx (SwTopic n # outs) = deliveries_to tx outs"

lemma deliveries_to_append [simp]: "deliveries_to tx (xs @ ys) = deliveries_to tx xs @ deliveries_to tx ys"
  by (induction tx xs rule: deliveries_to.induct) auto

lemma deliveries_to_SwTopic [simp]: "deliveries_to tx (map SwTopic ns) = []"
  by (induction ns) auto

lemma deliveries_to_same_event:
  "deliveries_to tx (map (\<lambda>(c, e). SwDeliver c e) (map (\<lambda>c. (c, ev)) cs)) = replicate (count_list cs tx) ev"
  by (induction cs) auto

definition owned_by :: "event_switch \<Rightarrow> event_sender \<Rightarrow> topic \<Rightarrow> subscription_id set" where
  "owned_by sw tx t = {i. subscriptions_of sw t i = Some tx}"

lemma finite_owned_by [simp]: "finite (owned_by sw tx t)"
proof (rule finite_subset)
  show "owned_by sw tx t \<subseteq> dom (subscriptions_of sw t)" by (auto simp: owned_by_def)
  show "finite (dom (subscriptions_of sw t))" by (simp add: dom_subscriptions_of split: option.splits)
qed

lemma card_owned_by:
  assumes "sw_inv sw" "sw_subs sw t = Some s"
  shows "count_list (map snd s) tx = card (owned_by sw tx t)"
proof -
  have d: "distinct (map fst s)" using assms by (simp add: sw_inv_def)
  have "count_list (map snd s) tx = length (filter (\<lambda>p. snd p = tx) s)"
    by (induction s) auto
  also have "\<dots> = card (fst ` set (filter (\<lambda>p. snd p = tx) s))"
    using d distinct_card [of "map fst (filter (\<lambda>p. snd p = tx) s)"] by (simp add: distinct_map_filter)
  also have "fst ` set (filter (\<lambda>p. snd p = tx) s) = owned_by sw tx t"
    using d assms(2) by (force simp: owned_by_def subscriptions_of_def dest: map_of_SomeD)
  finally show ?thesis .
qed

lemma switch_event_sent:
  assumes "iter_law iter" "sw_inv sw"
  shows "count_list (map fst (snd (switch_event iter alive ev sw))) tx =
    (if alive tx then card (owned_by sw tx (ev_topic ev)) else 0)"
proof (cases "sw_subs sw (ev_topic ev)")
  case None
  then show ?thesis by (simp add: switch_event_def owned_by_def subscriptions_of_def)
next
  case (Some s)
  have "count_list (map snd (filter (\<lambda>p. alive (snd p)) xs)) tx =
      (if alive tx then count_list (map snd xs) tx else 0)" for xs :: subscribers
    by (induction xs) auto
  moreover have "count_list (map snd (iter s)) tx = count_list (map snd s) tx"
    using assms(1) by (metis count_mset iter_law_def mset_map)
  ultimately show ?thesis
    using Some card_owned_by [OF assms(2) Some]
    by (simp add: switch_event_def send_all_eq comp_def)
qed

lemma subscriptions_of_event:
  assumes "iter_law iter" "sw_inv sw"
  shows "subscriptions_of (fst (switch_event iter alive ev sw)) t i =
    (if t = ev_topic ev then option_filter alive (subscriptions_of sw t i) else subscriptions_of sw t i)"
proof -
  have "map_of (filter (\<lambda>p. alive (snd p)) s) i = option_filter alive (map_of s i)"
    if "distinct (map fst s)" for s :: subscribers
    using that by (induction s) (auto simp: option_filter_def rev_image_eqI map_of_eq_None_iff
        split: option.splits dest: map_of_SomeD)
  then show ?thesis
    using assms(2)
    by (auto simp: subscriptions_of_def switch_event_subs [OF assms] sw_inv_def split: option.splits)
qed

text \<open>A notification that neither adds nor drops a subscription of the connection \<open>tx\<close>.\<close>

definition foreign :: "event_switch \<Rightarrow> event_sender \<Rightarrow> subscription_notification \<Rightarrow> bool" where
  "foreign sw tx n \<longleftrightarrow> (\<forall>t. sn_id n \<notin> owned_by sw tx t) \<and> (\<forall>t i. n \<noteq> SnSubscribe t i tx)"

lemma owned_by_notify:
  assumes "foreign sw tx n"
  shows "owned_by (fst (switch_notify n sw)) tx t = owned_by sw tx t"
proof (cases n)
  case (SnSubscribe t' i tx')
  then show ?thesis
    using assms by (auto simp: foreign_def owned_by_def subscriptions_of_notify simp del: switch_notify.simps)
next
  case (SnUnsubscribe t' i)
  then show ?thesis
    using assms by (auto simp: foreign_def owned_by_def subscriptions_of_notify simp del: switch_notify.simps)
qed

lemma owned_by_event:
  "iter_law iter \<Longrightarrow> sw_inv sw \<Longrightarrow> alive tx \<Longrightarrow>
   owned_by (fst (switch_event iter alive ev sw)) tx t = owned_by sw tx t"
  by (auto simp: owned_by_def subscriptions_of_event)

text \<open>The events of a run, in order.\<close>

fun events_of :: "((event_sender \<Rightarrow> bool) \<times> switch_input) list \<Rightarrow> event list" where
  "events_of [] = []"
| "events_of ((a, SwEvent e) # ins) = e # events_of ins"
| "events_of ((a, SwNotify n) # ins) = events_of ins"

lemma foreign_cong:
  "(\<And>t. owned_by sw' tx t = owned_by sw tx t) \<Longrightarrow> foreign sw' tx n = foreign sw tx n"
  by (simp add: foreign_def)

lemma switch_event_deliveries:
  assumes "iter_law iter" "sw_inv sw" "alive tx"
  shows "deliveries_to tx (snd (switch_step iter alive (SwEvent e) sw)) =
    replicate (card (owned_by sw tx (ev_topic e))) e"
proof -
  let ?cs = "map fst (snd (switch_event iter alive e sw))"
  have "snd (switch_event iter alive e sw) = map (\<lambda>c. (c, e)) ?cs"
    by (simp add: switch_event_def split_beta comp_def split: option.splits)
  then have "deliveries_to tx (snd (switch_step iter alive (SwEvent e) sw)) = replicate (count_list ?cs tx) e"
    using deliveries_to_same_event [of tx e ?cs] by (simp add: split_beta)
  moreover have "count_list ?cs tx = card (owned_by sw tx (ev_topic e))"
    using switch_event_sent [OF assms(1,2)] assms(3) by simp
  ultimately show ?thesis by simp
qed

lemma switch_step_deliveries:
  assumes "iter_law iter" "sw_inv sw" "alive tx" "\<forall>t. card (owned_by sw tx t) \<le> 1"
  shows "deliveries_to tx (snd (switch_step iter alive inp sw)) =
    (case inp of SwEvent e \<Rightarrow> if owned_by sw tx (ev_topic e) \<noteq> {} then [e] else [] | SwNotify n \<Rightarrow> [])"
proof (cases inp)
  case (SwEvent e)
  then show ?thesis
    using switch_event_deliveries [where alive = alive and tx = tx, OF assms(1-3), of e] assms(4) [rule_format, of "ev_topic e"]
    by (cases "card (owned_by sw tx (ev_topic e))") auto
qed (simp add: split_beta)

lemma switch_run_deliveries:
  assumes "iter_law iter" "sw_inv sw" "\<forall>t. card (owned_by sw tx t) \<le> 1"
    and "\<forall>p \<in> set ins. fst p tx" "\<forall>n \<in> set (notifications ins). foreign sw tx n"
  shows "deliveries_to tx (snd (switch_run iter ins sw)) =
    filter (\<lambda>e. owned_by sw tx (ev_topic e) \<noteq> {}) (events_of ins)"
  using assms(2-)
proof (induction ins arbitrary: sw)
  case Nil
  then show ?case by simp
next
  case (Cons p ins)
  obtain a inp where p: "p = (a, inp)" by (cases p)
  let ?sw' = "fst (switch_step iter a inp sw)"
  have same: "owned_by ?sw' tx t = owned_by sw tx t" for t
    using Cons.prems p owned_by_notify owned_by_event [OF assms(1), of sw a tx]
    by (cases inp) (auto simp: split_beta)
  have "deliveries_to tx (snd (switch_run iter ins ?sw')) =
      filter (\<lambda>e. owned_by ?sw' tx (ev_topic e) \<noteq> {}) (events_of ins)"
  proof (rule Cons.IH)
    show "sw_inv ?sw'" using switch_step_inv [OF assms(1) Cons.prems(1)] .
    show "\<forall>t. card (owned_by ?sw' tx t) \<le> 1" using Cons.prems(2) unfolding same .
    show "\<forall>p \<in> set ins. fst p tx" using Cons.prems(3) by simp
    show "\<forall>n \<in> set (notifications ins). foreign ?sw' tx n"
      unfolding foreign_cong [OF same] using Cons.prems(4) p by (cases inp) simp_all
  qed
  then have "deliveries_to tx (snd (switch_run iter ins ?sw')) =
      filter (\<lambda>e. owned_by sw tx (ev_topic e) \<noteq> {}) (events_of ins)"
    unfolding same .
  moreover note switch_step_deliveries [OF assms(1) Cons.prems(1) _ Cons.prems(2), of a inp]
  ultimately show ?case
    using p Cons.prems(3) by (cases inp) (simp_all add: split_beta)
qed

section \<open>Properties\<close>

text \<open>
  Routing. An event goes, once per subscription, to every subscriber of its topic whose
  receiver is alive and to nobody else; the subscribers whose receiver is gone are dropped from
  that topic; no other subscription changes.
\<close>

theorem event_routed_to_live_subscribers:
  assumes "iter_law iter" and "sw_inv sw" and "switch_event iter alive ev sw = (sw', sent)"
  shows "count_list (map fst sent) tx = (if alive tx then card (owned_by sw tx (ev_topic ev)) else 0)
    \<and> set (map snd sent) \<subseteq> {ev}
    \<and> subscriptions_of sw' t i =
        (if t = ev_topic ev then option_filter alive (subscriptions_of sw t i) else subscriptions_of sw t i)"
  using switch_event_sent [OF assms(1,2), of alive ev tx] subscriptions_of_event [OF assms(1,2), of alive ev t i] assms(3)
  by (auto simp: switch_event_def split_beta split: option.splits)

definition example_topic :: topic where
  "example_topic = \<lparr>inner = [7], is_string = False\<rparr>"

definition example_event :: event where
  "example_event = \<lparr>ev_topic = example_topic, ev_payload = [1]\<rparr>"

definition example_switch :: event_switch where
  "example_switch = \<lparr>sw_subs = [example_topic \<mapsto> [([1], 10), ([2], 20)]]\<rparr>"

lemma example_switch_tidy: "sw_tidy example_switch"
  by (simp add: sw_tidy_def sw_inv_def example_switch_def)

theorem event_routed_to_live_subscribers_witness:
  "switch_event rev (\<lambda>tx. tx = 20) example_event example_switch =
     (\<lparr>sw_subs = [example_topic \<mapsto> [([2], 20)]]\<rparr>, [(20, example_event)])
   \<and> count_list (map fst [(20, example_event)]) 20 = card (owned_by example_switch 20 example_topic)
   \<and> subscriptions_of \<lparr>sw_subs = [example_topic \<mapsto> [([2], 20)]]\<rparr> example_topic [1] = None"
proof -
  have e: "switch_event rev (\<lambda>tx. tx = 20) example_event example_switch =
     (\<lparr>sw_subs = [example_topic \<mapsto> [([2], 20)]]\<rparr>, [(20, example_event)])"
    by (simp add: switch_event_def example_switch_def example_event_def hm_remove_def)
  have "sw_inv example_switch" using example_switch_tidy by (simp add: sw_tidy_def)
  from event_routed_to_live_subscribers [OF iter_law_rev this e, of 20 example_topic "[1]"] e
  show ?thesis by (simp add: example_event_def example_switch_def subscriptions_of_def)
qed

text \<open>
  C9: a connection with at most one subscription per topic whose receiver stays alive receives
  every event of its topics exactly once and in the order the switch took them, whatever other
  connections subscribe, unsubscribe or lose meanwhile.
\<close>

theorem events_exactly_once_in_order:
  assumes "iter_law iter" and "sw_inv sw" and "\<forall>t. card (owned_by sw tx t) \<le> 1"
    and "\<forall>p \<in> set ins. fst p tx" and "\<forall>n \<in> set (notifications ins). foreign sw tx n"
  shows "deliveries_to tx (snd (switch_run iter ins sw)) =
    filter (\<lambda>e. owned_by sw tx (ev_topic e) \<noteq> {}) (events_of ins)"
  using assms by (rule switch_run_deliveries)

theorem events_exactly_once_in_order_witness:
  "deliveries_to 20 (snd (switch_run (\<lambda>xs. xs)
      [(\<lambda>tx. tx = 20, SwEvent example_event), (\<lambda>tx. True, SwNotify (SnUnsubscribe example_topic [1])),
       (\<lambda>tx. True, SwEvent (example_event\<lparr>ev_payload := [2]\<rparr>))] example_switch))
   = filter (\<lambda>e. owned_by example_switch 20 (ev_topic e) \<noteq> {})
       [example_event, example_event\<lparr>ev_payload := [2]\<rparr>]
   \<and> owned_by example_switch 20 example_topic = {[2]}"
proof -
  have own: "owned_by example_switch 20 t = (if t = example_topic then {[2]} else {})" for t
    by (auto simp: owned_by_def subscriptions_of_def example_switch_def split: if_splits)
  have "sw_inv example_switch" using example_switch_tidy by (simp add: sw_tidy_def)
  from events_exactly_once_in_order [OF iter_law_id this, of 20
      "[(\<lambda>tx. tx = 20, SwEvent example_event), (\<lambda>tx. True, SwNotify (SnUnsubscribe example_topic [1])),
       (\<lambda>tx. True, SwEvent (example_event\<lparr>ev_payload := [2]\<rparr>))]"]
  show ?thesis by (simp add: own foreign_def)
qed

text \<open>
  C15: refinement. While every send succeeds, the switch implements the registry: its nested hash
  maps represent the abstract subscriptions, and it announces exactly the creations (a first
  subscriber) and removals (the last one gone) the registry specifies, in the same order.
\<close>

theorem switch_refines_registry:
  assumes "iter_law iter" and "sw_tidy sw" and "\<forall>p \<in> set ins. \<forall>tx. fst p tx"
  shows "spec_run (notifications ins) (subscriptions_of sw) =
    (subscriptions_of (fst (switch_run iter ins sw)), announced (snd (switch_run iter ins sw)))"
  using switch_run_spec [OF assms] by simp

theorem switch_refines_registry_witness:
  "spec_run [SnUnsubscribe example_topic [1], SnUnsubscribe example_topic [2]] (subscriptions_of example_switch) =
     (subscriptions_of switch_new, [Removed example_topic])"
proof -
  let ?ins = "[(\<lambda>tx. True, SwNotify (SnUnsubscribe example_topic [1])), (\<lambda>tx. True, SwEvent example_event),
     (\<lambda>tx. True, SwNotify (SnUnsubscribe example_topic [2]))] :: ((event_sender \<Rightarrow> bool) \<times> switch_input) list"
  have "switch_run (\<lambda>xs. xs) ?ins example_switch =
      (switch_new, [SwDeliver 20 example_event, SwTopic (Removed example_topic)])"
    by (simp add: example_switch_def example_event_def switch_event_def hm_remove_def switch_new_def)
  with switch_refines_registry [OF iter_law_id example_switch_tidy, of ?ins] show ?thesis by simp
qed

text \<open>
  C31: while every send succeeds and subscription identifiers are not reused, each topic's
  announcements alternate, creation first, and the topic is subscribed exactly when its last
  announcement is a creation.
\<close>

theorem topic_announcements_alternate:
  assumes "iter_law iter" and "\<forall>p \<in> set ins. \<forall>tx. fst p tx"
    and "distinct (subscribe_ids (notifications ins))"
  shows "track t False (announced (snd (switch_run iter ins switch_new))) =
    Some (sw_subs (fst (switch_run iter ins switch_new)) t \<noteq> None)"
proof -
  have r: "subscriptions_of switch_new = (\<lambda>t. Map.empty)"
    by (simp add: subscriptions_of_def switch_new_def fun_eq_iff)
  from switch_run_spec [OF assms(1) sw_tidy_new assms(2)]
  have tidy: "sw_tidy (fst (switch_run iter ins switch_new))"
    and spec: "spec_run (notifications ins) (\<lambda>t. Map.empty) =
      (subscriptions_of (fst (switch_run iter ins switch_new)), announced (snd (switch_run iter ins switch_new)))"
    by (simp_all add: r)
  from spec_run_track [OF assms(3), of "\<lambda>t. Map.empty" t] spec show ?thesis
    using subscribed_iff [OF tidy, of t] by auto
qed

theorem topic_announcements_alternate_witness:
  "track example_topic False (announced (snd (switch_run (\<lambda>xs. xs)
      [(\<lambda>tx. True, SwNotify (SnSubscribe example_topic [1] 10)), (\<lambda>tx. True, SwNotify (SnUnsubscribe example_topic [1])),
       (\<lambda>tx. True, SwNotify (SnSubscribe example_topic [2] 10))] switch_new))) = Some True"
proof -
  let ?ins = "[(\<lambda>tx. True, SwNotify (SnSubscribe example_topic [1] 10)), (\<lambda>tx. True, SwNotify (SnUnsubscribe example_topic [1])),
       (\<lambda>tx. True, SwNotify (SnSubscribe example_topic [2] 10))] :: ((event_sender \<Rightarrow> bool) \<times> switch_input) list"
  have "sw_subs (fst (switch_run (\<lambda>xs. xs) ?ins switch_new)) example_topic \<noteq> None"
    by (simp add: switch_new_def hm_remove_def)
  with topic_announcements_alternate [OF iter_law_id, of ?ins example_topic] show ?thesis by simp
qed

text \<open>
  C39: a failed send breaks the alternation. When an event finds a topic's only subscriber gone,
  the subscriber is dropped but the topic stays, with no subscribers and no removal announced, and
  the next subscription announces the topic's creation a second time.
\<close>

theorem dead_subscriber_leaves_topic:
  assumes "iter_law iter" and "\<not> alive tx" and "ev_topic ev = t"
    and "switch_run iter [(alive0, SwNotify (SnSubscribe t i tx)), (alive, SwEvent ev)] switch_new = (sw, outs)"
  shows "outs = [SwTopic (Created t)] \<and> sw_subs sw t = Some []
    \<and> snd (switch_notify (SnSubscribe t j tx') sw) = [Created t]"
proof -
  have "iter [(i, tx)] = [(i, tx)]"
    using assms(1) by (metis iter_law_def mset_single_iff_right mset.simps)
  then show ?thesis
    using assms(2-) by (auto simp: switch_new_def switch_event_def hm_remove_def)
qed

theorem dead_subscriber_leaves_topic_witness:
  "announced (snd (switch_run (\<lambda>xs. xs)
      [(\<lambda>tx. True, SwNotify (SnSubscribe example_topic [1] 10)), (\<lambda>tx. False, SwEvent example_event)] switch_new))
    = [Created example_topic]
   \<and> sw_subs (fst (switch_run (\<lambda>xs. xs)
      [(\<lambda>tx. True, SwNotify (SnSubscribe example_topic [1] 10)), (\<lambda>tx. False, SwEvent example_event)] switch_new)) example_topic
    = Some []"
proof -
  let ?ins = "[(\<lambda>tx. True, SwNotify (SnSubscribe example_topic [1] 10)), (\<lambda>tx. False, SwEvent example_event)]
    :: ((event_sender \<Rightarrow> bool) \<times> switch_input) list"
  have "snd (switch_run (\<lambda>xs. xs) ?ins switch_new) = [SwTopic (Created example_topic)]
      \<and> sw_subs (fst (switch_run (\<lambda>xs. xs) ?ins switch_new)) example_topic = Some []"
    using dead_subscriber_leaves_topic [OF iter_law_id, of "\<lambda>tx. False" 10 example_event example_topic "\<lambda>tx. True" "[1]"
        "fst (switch_run (\<lambda>xs. xs) ?ins switch_new)" "snd (switch_run (\<lambda>xs. xs) ?ins switch_new)"]
    by (simp only: prod.collapse) (simp add: example_event_def)
  then show ?thesis by (simp only: announced.simps)
qed

end
