(* ===== verification/HL_Demo.thy ===== *)
theory HL_Demo
  imports HL_Codec "HOL-Library.Countable"
begin

text \<open>
  A concrete instance of the libraries, which satisfies their laws: a tagged, length-prefixed
  serialization of the two message types over the stored (uncompressed) stream. The witnesses of
  the properties that assume the libraries' laws evaluate on it.
\<close>

section \<open>Serialized client messages\<close>

definition demo_client :: "client_message rkyv" where
  "demo_client = \<lparr>to_bytes = (\<lambda>m. case m of RPCRequest i internal \<Rightarrow> Some (i # internal)),
     from_bytes = (\<lambda>b. case b of [] \<Rightarrow> None | i # internal \<Rightarrow> Some (RPCRequest i internal))\<rparr>"

lemma demo_client_law: "rkyv_law demo_client"
  by (auto simp: lib_laws demo_client_def split: client_message.splits)

section \<open>Serialized server messages\<close>

definition error_list :: "rpc_handler_error list" where
  "error_list = [ClientNotConnected, TooManyCallsInFlight, ClientEncodeError, ClientDecodeError,
     ServerEncodeError, ServerDecodeError, ClientCompressError, ClientDecompressError,
     ServerCompressError, ServerDecompressError, HandlerPanicked]"

fun error_code :: "rpc_handler_error \<Rightarrow> u8" where
  "error_code ClientNotConnected = 0"
| "error_code TooManyCallsInFlight = 1"
| "error_code ClientEncodeError = 2"
| "error_code ClientDecodeError = 3"
| "error_code ServerEncodeError = 4"
| "error_code ServerDecodeError = 5"
| "error_code ClientCompressError = 6"
| "error_code ClientDecompressError = 7"
| "error_code ServerCompressError = 8"
| "error_code ServerDecompressError = 9"
| "error_code HandlerPanicked = 10"

definition error_of :: "u8 \<Rightarrow> rpc_handler_error option" where
  "error_of x = find (\<lambda>e. error_code e = x) error_list"

lemma error_of_code [simp]: "error_of (error_code e) = Some e"
  by (cases e) (simp_all add: error_of_def error_list_def)

fun put_updates :: "state_update list \<Rightarrow> bytes option" where
  "put_updates [] = Some []"
| "put_updates (u # us) =
     (if index u < 256 \<and> length (data u) < 256
      then map_option (\<lambda>r. of_nat (index u) # of_nat (length (data u)) # data u @ r) (put_updates us)
      else None)"

function get_updates :: "bytes \<Rightarrow> state_update list option" where
  "get_updates [] = Some []"
| "get_updates [x] = None"
| "get_updates (i # n # r) =
     (if unat n \<le> length r
      then map_option (Cons \<lparr>index = unat i, data = take (unat n) r\<rparr>) (get_updates (drop (unat n) r))
      else None)"
  by pat_completeness auto
termination
  by (relation "measure length") auto

lemma get_put_updates: "put_updates us = Some b \<Longrightarrow> get_updates b = Some us"
  by (induction us arbitrary: b) (auto split: if_splits)

fun put_server :: "server_message \<Rightarrow> bytes option" where
  "put_server (RPCResponse i (Inr b)) = Some (0 # i # b)"
| "put_server (RPCResponse i (Inl e)) = Some [1, i, error_code e]"
| "put_server (NewEvent t p) =
     (if length (inner t) < 256
      then Some (2 # of_bool (is_string t) # of_nat (length (inner t)) # inner t @ p) else None)"
| "put_server (StateChange us) = map_option (Cons 3) (put_updates us)"

fun get_server :: "bytes \<Rightarrow> server_message option" where
  "get_server (k # r) =
     (if k = 0 then (case r of i # b \<Rightarrow> Some (RPCResponse i (Inr b)) | _ \<Rightarrow> None)
      else if k = 1 then (case r of [i, x] \<Rightarrow> map_option (\<lambda>e. RPCResponse i (Inl e)) (error_of x) | _ \<Rightarrow> None)
      else if k = 2 then (case r of f # n # q \<Rightarrow>
        (if unat n \<le> length q
         then Some (NewEvent \<lparr>inner = take (unat n) q, is_string = (f = 1)\<rparr> (drop (unat n) q)) else None)
        | _ \<Rightarrow> None)
      else if k = 3 then map_option StateChange (get_updates r)
      else None)"
| "get_server [] = None"

definition demo_server :: "server_message rkyv" where
  "demo_server = \<lparr>to_bytes = put_server, from_bytes = get_server\<rparr>"

lemma get_put_server: "put_server m = Some b \<Longrightarrow> get_server b = Some m"
  by (cases m rule: put_server.cases) (auto simp: get_put_updates split: if_splits)

lemma demo_server_law: "rkyv_law demo_server"
  by (simp add: lib_laws demo_server_def get_put_server)

section \<open>The libraries together\<close>

definition demo_lib :: "(bytes, bytes) hl_lib" where
  "demo_lib = \<lparr>lib_flate = stored_flate, lib_client = demo_client, lib_server = demo_server\<rparr>"

lemma demo_lib_law: "hl_lib_law demo_lib"
  by (simp add: hl_lib_law_def demo_lib_def stored_flate_law demo_client_law demo_server_law)

lemmas demo_defs = demo_lib_def demo_client_def demo_server_def stored_flate_def

lemma demo_decode_client [simp]:
  "decode_client_message demo_lib (1 # i # internal) = Some (RPCRequest i internal)"
  "decode_client_message demo_lib [] = None"
  by (simp_all add: decode_client_message_def inflate_def demo_defs)

lemma demo_encode_client [simp]:
  "to_bytes (lib_client demo_lib) (RPCRequest i internal) = Some (i # internal)"
  "deflate (lib_flate demo_lib) b level = Some (1 # b)"
  "inflate (lib_flate demo_lib) (1 # b) = Some b"
  by (simp_all add: demo_defs deflate_def inflate_def)

lemma demo_encode_server [simp]:
  "encode_server_message demo_lib level m = map_option (Cons 1) (put_server m)"
  by (cases "put_server m") (simp_all add: encode_server_message_def deflate_def demo_defs)

lemma demo_from_server [simp]: "from_bytes (lib_server demo_lib) = get_server"
  by (simp add: demo_defs)

section \<open>Serialized numbers and topics\<close>

definition put_u32 :: "u32 \<Rightarrow> bytes" where
  "put_u32 n = [of_nat (unat n div 16777216), of_nat (unat n div 65536), of_nat (unat n div 256), of_nat (unat n mod 256)]"

fun get_u32 :: "bytes \<Rightarrow> u32 option" where
  "get_u32 [a, b, c, d] = Some (of_nat (unat a * 16777216 + unat b * 65536 + unat c * 256 + unat d))"
| "get_u32 _ = None"

lemma bytes_of_nat: "n < 4294967296 \<Longrightarrow>
    n div 16777216 mod 256 * 16777216 + n div 65536 mod 256 * 65536 + n div 256 mod 256 * 256 + n mod 256 = n"
  for n :: nat
proof -
  assume "n < 4294967296"
  then have "n div 16777216 mod 256 = n div 16777216" by simp
  moreover have "n div 16777216 * 256 + n div 65536 mod 256 = n div 65536"
    using div_mult_mod_eq [of "n div 65536" 256] by (simp add: div_mult2_eq [symmetric])
  moreover have "n div 65536 * 256 + n div 256 mod 256 = n div 256"
    using div_mult_mod_eq [of "n div 256" 256] by (simp add: div_mult2_eq [symmetric])
  moreover have "n div 256 * 256 + n mod 256 = n" by simp
  ultimately show ?thesis by linarith
qed

lemma get_put_u32 [simp]: "get_u32 (put_u32 n) = Some n"
proof -
  have "unat n < 4294967296" using unsigned_less [of n, where 'a = nat] by simp
  from bytes_of_nat [OF this] have "of_nat (unat n div 16777216 mod 256 * 16777216 + unat n div 65536 mod 256 * 65536
      + unat n div 256 mod 256 * 256 + unat n mod 256) = (of_nat (unat n) :: u32)" by (rule arg_cong)
  then show ?thesis by (simp add: put_u32_def unat_of_nat del: of_nat_add of_nat_mult)
qed

lemma length_put_u32 [simp]: "length (put_u32 n) = 4"
  by (simp add: put_u32_def)

definition u32_rkyv :: "u32 rkyv" where
  "u32_rkyv = \<lparr>to_bytes = (\<lambda>n. Some (put_u32 n)), from_bytes = get_u32\<rparr>"

fun get_topic :: "bytes \<Rightarrow> topic option" where
  "get_topic [] = None"
| "get_topic (f # r) = Some \<lparr>inner = r, is_string = (f = 1)\<rparr>"

definition topic_rkyv :: "topic rkyv" where
  "topic_rkyv = \<lparr>to_bytes = (\<lambda>t. Some (of_bool (is_string t) # inner t)), from_bytes = get_topic\<rparr>"

lemma u32_rkyv_law: "rkyv_law u32_rkyv"
  by (simp add: lib_laws u32_rkyv_def)

lemma topic_rkyv_law: "rkyv_law topic_rkyv"
  by (simp add: lib_laws topic_rkyv_def)

text \<open>Every countable type has a lawful serializer: the value's number, in unary.\<close>

definition unary_rkyv :: "'a::countable rkyv" where
  "unary_rkyv = \<lparr>to_bytes = (\<lambda>a. Some (replicate (to_nat a) 0)), from_bytes = (\<lambda>b. Some (from_nat (length b)))\<rparr>"

lemma unary_rkyv_law: "rkyv_law unary_rkyv" "to_bytes unary_rkyv a \<noteq> None"
  by (simp_all add: rkyv_law_def unary_rkyv_def)

end
