(* ===== verification/HL_Connection.thy ===== *)
theory HL_Connection
  imports HL_Demo
begin

text \<open>
  The server's connection handler (\<open>spawn_connection_handler\<close> in \<open>src/server.rs\<close>): the loop that
  serves one client once the handshake is done. It forwards RPC responses, state updates and
  events to the client, keeps the connection's subscriptions, and starts a handler task for each
  request. What the loop reads of its surroundings in an iteration (whether a worker thread, the
  socket and the event switch took what was sent, and the random bytes drawn) is an argument.
\<close>

section \<open>State, inputs and effects\<close>

record conn =
  in_flight :: "bool list"
  subscriptions :: "topic \<rightharpoonup> subscription_id"
  compression :: nat
  events_tx :: event_sender

definition conn_new :: "nat \<Rightarrow> event_sender \<Rightarrow> conn" where
  "conn_new level tx = \<lparr>in_flight = replicate 256 False, subscriptions = Map.empty,
     compression = level, events_tx = tx\<rparr>"

datatype conn_input =
    RpcOut server_message
  | StateChanges "state_update list"
  | EventIn event
  | Proxied proxied_notification
  | FromClient ws_in

record conn_env =
  worker_ok :: bool
  ws_ok :: bool
  switch_ok :: bool
  rand_id :: subscription_id

text \<open>What an iteration hands over: to the socket, to the event switch, to a new handler task.\<close>

datatype conn_effect =
    WsSend bytes
  | SwitchSend subscription_notification
  | SpawnRpc u8 bytes

section \<open>\<open>send_msg\<close>\<close>

definition send_msg ::
  "('enc, 'dec) hl_lib \<Rightarrow> nat \<Rightarrow> conn_env \<Rightarrow> server_message \<Rightarrow> conn_effect list \<times> (unit + unit)" where
  "send_msg L level env msg =
     (if \<not> worker_ok env then ([], Inl ())
      else case encode_server_message L level msg of
        None \<Rightarrow> ([], Inl ())
      | Some b \<Rightarrow> (if ws_ok env then ([WsSend b], Inr ()) else ([], Inl ())))"

section \<open>The branches of the loop\<close>

definition on_rpc_response ::
  "('enc, 'dec) hl_lib \<Rightarrow> conn_env \<Rightarrow> server_message \<Rightarrow> conn \<Rightarrow> (conn \<times> conn_effect list) outcome" where
  "on_rpc_response L env msg c =
     (case msg of
        RPCResponse i output \<Rightarrow>
          and_then (array_set (in_flight c) (unat i) False) (\<lambda>fl.
            Returns (c\<lparr>in_flight := fl\<rparr>, fst (send_msg L (compression c) env msg)))
      | _ \<Rightarrow> Panics)"

fun on_subscription_notification ::
  "conn_env \<Rightarrow> proxied_notification \<Rightarrow> conn \<Rightarrow> conn \<times> conn_effect list" where
  "on_subscription_notification env (PxSubscribe t) c =
     (if subscriptions c t = None
      then (let i = rand_id env;
                subs = (subscriptions c)(t \<mapsto> i)
            in if switch_ok env
               then (c\<lparr>subscriptions := subs\<rparr>, [SwitchSend (SnSubscribe t i (events_tx c))])
               else (c\<lparr>subscriptions := subs(t := None)\<rparr>, []))
      else (c, []))"
| "on_subscription_notification env (PxUnsubscribe t) c =
     (case subscriptions c t of
        Some i \<Rightarrow>
          (let subs = (subscriptions c)(t := None)
           in if switch_ok env
              then (c\<lparr>subscriptions := subs\<rparr>, [SwitchSend (SnUnsubscribe t i)])
              else (c\<lparr>subscriptions := subs(t \<mapsto> i)\<rparr>, []))
      | None \<Rightarrow> (c, []))"

definition on_client_message ::
  "('enc, 'dec) hl_lib \<Rightarrow> conn_env \<Rightarrow> ws_in \<Rightarrow> conn \<Rightarrow> (conn \<times> conn_effect list) outcome" where
  "on_client_message L env msg c =
     (case msg of
        WsErr \<Rightarrow> Returns (c, [])
      | WsOther \<Rightarrow> Returns (c, [])
      | WsBinary b \<Rightarrow>
          (case (if worker_ok env then decode_client_message L b else None) of
             None \<Rightarrow> Returns (c, [])
           | Some (RPCRequest i internal) \<Rightarrow>
               and_then (array_get (in_flight c) (unat i)) (\<lambda>busy.
                 if busy then Returns (c, [])
                 else and_then (array_set (in_flight c) (unat i) True) (\<lambda>fl.
                        Returns (c\<lparr>in_flight := fl\<rparr>, [SpawnRpc i internal])))))"

fun conn_step ::
  "('enc, 'dec) hl_lib \<Rightarrow> conn_env \<Rightarrow> conn_input \<Rightarrow> conn \<Rightarrow> (conn \<times> conn_effect list) outcome" where
  "conn_step L env (RpcOut msg) c = on_rpc_response L env msg c"
| "conn_step L env (StateChanges us) c =
     Returns (c, fst (send_msg L (compression c) env (StateChange us)))"
| "conn_step L env (EventIn ev) c =
     Returns (c, fst (send_msg L (compression c) env (NewEvent (ev_topic ev) (ev_payload ev))))"
| "conn_step L env (Proxied n) c = Returns (on_subscription_notification env n c)"
| "conn_step L env (FromClient m) c = on_client_message L env m c"

section \<open>The biased \<open>select!\<close> and the loop\<close>

text \<open>What each branch of the \<open>select!\<close> has ready; \<open>None\<close> is a branch that must wait.\<close>

record conn_ready =
  ready_rpc :: "server_message option"
  ready_state :: "state_update list option"
  ready_event :: "event option"
  ready_proxied :: "proxied_notification option"
  ready_client :: "ws_in option"

definition conn_select :: "conn_ready \<Rightarrow> conn_input option" where
  "conn_select r =
     (case ready_rpc r of Some m \<Rightarrow> Some (RpcOut m) | None \<Rightarrow>
      case ready_state r of Some us \<Rightarrow> Some (StateChanges us) | None \<Rightarrow>
      case ready_event r of Some ev \<Rightarrow> Some (EventIn ev) | None \<Rightarrow>
      case ready_proxied r of Some n \<Rightarrow> Some (Proxied n) | None \<Rightarrow>
      map_option FromClient (ready_client r))"

definition conn_iteration ::
  "('enc, 'dec) hl_lib \<Rightarrow> conn_env \<Rightarrow> conn_ready \<Rightarrow> conn \<Rightarrow> (conn \<times> conn_effect list) outcome" where
  "conn_iteration L env r c =
     (case conn_select r of None \<Rightarrow> Returns (c, []) | Some inp \<Rightarrow> conn_step L env inp c)"

fun conn_loop ::
  "('enc, 'dec) hl_lib \<Rightarrow> (conn_env \<times> conn_ready) list \<Rightarrow> conn \<Rightarrow> (conn \<times> conn_effect list) outcome" where
  "conn_loop L [] c = Returns (c, [])"
| "conn_loop L ((env, r) # rs) c =
     and_then (conn_iteration L env r c) (\<lambda>(c', out).
       and_then (conn_loop L rs c') (\<lambda>(c'', outs). Returns (c'', out @ outs)))"

section \<open>Invariant and one-step facts\<close>

definition conn_inv :: "conn \<Rightarrow> bool" where
  "conn_inv c \<longleftrightarrow> length (in_flight c) = 256"

lemma conn_inv_new [simp]: "conn_inv (conn_new level tx)"
  by (simp add: conn_inv_def conn_new_def)

lemma conn_inv_index [simp]: "conn_inv c \<Longrightarrow> unat (i :: u8) < length (in_flight c)"
  by (simp add: conn_inv_def)

lemma on_rpc_response_eq [step_defs]:
  "conn_inv c \<Longrightarrow> on_rpc_response L env (RPCResponse i out) c =
     Returns (c\<lparr>in_flight := (in_flight c)[unat i := False]\<rparr>,
       fst (send_msg L (compression c) env (RPCResponse i out)))"
  by (simp add: on_rpc_response_def)

lemma on_client_message_eq [step_defs]:
  "conn_inv c \<Longrightarrow> on_client_message L env (WsBinary b) c =
     (case (if worker_ok env then decode_client_message L b else None) of
        None \<Rightarrow> Returns (c, [])
      | Some (RPCRequest i internal) \<Rightarrow>
          (if in_flight c ! unat i then Returns (c, [])
           else Returns (c\<lparr>in_flight := (in_flight c)[unat i := True]\<rparr>, [SpawnRpc i internal])))"
  by (simp add: on_client_message_def split: option.split client_message.split)

lemma on_client_message_other [step_defs]:
  "on_client_message L env WsErr c = Returns (c, [])"
  "on_client_message L env WsOther c = Returns (c, [])"
  by (simp_all add: on_client_message_def)

lemma conn_step_Returns_inv:
  assumes "conn_inv c" "conn_step L env inp c = Returns (c', out)"
  shows "conn_inv c'"
proof (cases inp)
  case (RpcOut msg)
  then show ?thesis
    using assms by (cases msg) (auto simp: step_defs on_rpc_response_def conn_inv_def)
next
  case (Proxied n)
  then show ?thesis
    using assms by (cases n) (auto simp: conn_inv_def Let_def split: if_splits option.splits)
next
  case (FromClient m)
  then show ?thesis
    using assms by (cases m) (auto simp: step_defs conn_inv_def
        split: if_splits option.splits client_message.splits)
qed (use assms in auto)

text \<open>The only input that can panic is a message on the RPC channel that is no response.\<close>

fun expected :: "conn_input \<Rightarrow> bool" where
  "expected (RpcOut (RPCResponse i out)) = True"
| "expected (RpcOut _) = False"
| "expected _ = True"

lemma conn_step_no_panic:
  assumes "conn_inv c" "expected inp"
  shows "\<exists>c' out. conn_step L env inp c = Returns (c', out)"
proof (cases inp)
  case (RpcOut msg)
  then show ?thesis using assms by (cases msg) (auto simp: step_defs)
next
  case (FromClient m)
  then show ?thesis
    using assms by (cases m) (auto simp: step_defs split: option.splits client_message.splits)
next
  case (Proxied n)
  then show ?thesis by (simp add: prod_eq_iff)
qed auto

section \<open>The handler tasks of a connection\<close>

fun ws_sends :: "conn_effect list \<Rightarrow> bytes list" where
  "ws_sends [] = []"
| "ws_sends (WsSend b # es) = b # ws_sends es"
| "ws_sends (_ # es) = ws_sends es"

fun switch_sends :: "conn_effect list \<Rightarrow> subscription_notification list" where
  "switch_sends [] = []"
| "switch_sends (SwitchSend n # es) = n # switch_sends es"
| "switch_sends (_ # es) = switch_sends es"

fun spawned :: "conn_effect list \<Rightarrow> (u8 \<times> bytes) list" where
  "spawned [] = []"
| "spawned (SpawnRpc i internal # es) = (i, internal) # spawned es"
| "spawned (_ # es) = spawned es"

fun resp_id :: "server_message \<Rightarrow> u8" where
  "resp_id (RPCResponse i out) = i"
| "resp_id _ = 0"

fun is_response :: "server_message \<Rightarrow> bool" where
  "is_response (RPCResponse i out) = True"
| "is_response _ = False"

text \<open>
  The connection with the tasks it has started: the tasks still running, the responses their
  channel holds, and the identifiers of tasks that panicked (their response is never sent).
\<close>

record srv =
  srv_conn :: conn
  tasks :: "(u8 \<times> bytes) multiset"
  finished :: "server_message multiset"
  crashed :: "u8 multiset"

definition srv_new :: "nat \<Rightarrow> event_sender \<Rightarrow> srv" where
  "srv_new level tx = \<lparr>srv_conn = conn_new level tx, tasks = {#}, finished = {#}, crashed = {#}\<rparr>"

text \<open>
  One step: the input read from the socket, if any, and the bytes written to it. A task answers
  with any output the application's handler \<open>H\<close> allows for its request. The task's channel is only
  assumed to deliver what was sent, in any order.
\<close>

inductive srv_step ::
  "('enc, 'dec) hl_lib \<Rightarrow> (bytes \<Rightarrow> bytes handler_result \<Rightarrow> bool) \<Rightarrow> srv \<Rightarrow> ws_in option \<Rightarrow> bytes list \<Rightarrow> srv \<Rightarrow> bool"
  for L :: "('enc, 'dec) hl_lib" and H :: "bytes \<Rightarrow> bytes handler_result \<Rightarrow> bool" where
  srv_recv: "conn_step L env (FromClient m) (srv_conn s) = Returns (c', out) \<Longrightarrow>
     srv_step L H s (Some m) (ws_sends out)
       (s\<lparr>srv_conn := c', tasks := tasks s + mset (spawned out)\<rparr>)"
| srv_finish: "(i, internal) \<in># tasks s \<Longrightarrow> H internal res \<Longrightarrow>
     srv_step L H s None []
       (s\<lparr>tasks := tasks s - {#(i, internal)#}, finished := add_mset (RPCResponse i res) (finished s)\<rparr>)"
| srv_crash: "(i, internal) \<in># tasks s \<Longrightarrow>
     srv_step L H s None []
       (s\<lparr>tasks := tasks s - {#(i, internal)#}, crashed := add_mset i (crashed s)\<rparr>)"
| srv_respond: "msg \<in># finished s \<Longrightarrow> conn_step L env (RpcOut msg) (srv_conn s) = Returns (c', out) \<Longrightarrow>
     srv_step L H s None (ws_sends out) (s\<lparr>srv_conn := c', finished := finished s - {#msg#}\<rparr>)"
| srv_push: "inp \<in> {StateChanges us, EventIn ev, Proxied n} \<Longrightarrow>
     conn_step L env inp (srv_conn s) = Returns (c', out) \<Longrightarrow>
     srv_step L H s None (ws_sends out) (s\<lparr>srv_conn := c'\<rparr>)"

definition srv_reach ::
  "('enc, 'dec) hl_lib \<Rightarrow> (bytes \<Rightarrow> bytes handler_result \<Rightarrow> bool) \<Rightarrow> srv \<Rightarrow> srv \<Rightarrow> bool" where
  "srv_reach L H = reachable (\<lambda>s s'. \<exists>inp out. srv_step L H s inp out s')"

lemma srv_refl: "srv_reach L H s s"
  by (simp add: srv_reach_def reachable_refl)

lemma srv_more: "srv_reach L H s0 s \<Longrightarrow> srv_step L H s inp out s' \<Longrightarrow> srv_reach L H s0 s'"
  unfolding srv_reach_def by (blast intro: reachable_step)

inductive_cases srv_recvE: "srv_step L H s (Some m) out s'"
inductive_cases srv_ownE: "srv_step L H s None out s'"

definition occupied :: "srv \<Rightarrow> u8 multiset" where
  "occupied s = image_mset fst (tasks s) + image_mset resp_id (finished s) + crashed s"

definition srv_inv :: "srv \<Rightarrow> bool" where
  "srv_inv s \<longleftrightarrow> conn_inv (srv_conn s) \<and> (\<forall>m \<in># finished s. is_response m)
     \<and> (\<forall>i. count (occupied s) i = (if in_flight (srv_conn s) ! unat i then 1 else 0))"

lemma srv_inv_new: "srv_inv (srv_new level tx)"
  by (simp add: srv_inv_def srv_new_def occupied_def conn_inv_def conn_new_def)

lemma is_response_iff: "is_response m \<longleftrightarrow> (\<exists>i out. m = RPCResponse i out)"
  by (cases m) auto

lemma send_msg_effects [simp]:
  "spawned (fst (send_msg L level env m)) = []" "switch_sends (fst (send_msg L level env m)) = []"
  by (auto simp: send_msg_def split: option.split)

lemma push_in_flight:
  assumes "inp \<in> {StateChanges us, EventIn ev, Proxied n}" "conn_step L env inp c = Returns (c', out)"
  shows "in_flight c' = in_flight c"
  using assms by (cases n) (auto simp: Let_def split: if_splits option.splits)

lemma client_step_cases:
  assumes "conn_inv c" "conn_step L env (FromClient m) c = Returns (c', out)"
  obtains "c' = c" "out = []"
  | b i internal where "m = WsBinary b" "decode_client_message L b = Some (RPCRequest i internal)"
      "\<not> in_flight c ! unat i" "c' = c\<lparr>in_flight := (in_flight c)[unat i := True]\<rparr>"
      "out = [SpawnRpc i internal]"
proof (cases m)
  case (WsBinary b)
  show thesis
  proof (cases "worker_ok env \<and> (\<exists>i internal. decode_client_message L b = Some (RPCRequest i internal) \<and> \<not> in_flight c ! unat i)")
    case True
    then obtain i internal where i: "worker_ok env" "decode_client_message L b = Some (RPCRequest i internal)"
        "\<not> in_flight c ! unat i"
      by blast
    then show thesis using that(2) [OF WsBinary i(2,3)] assms WsBinary by (simp add: step_defs)
  next
    case False
    then have "c' = c \<and> out = []"
      using assms WsBinary by (auto simp: step_defs split: if_splits option.splits client_message.splits)
    then show thesis using that(1) by simp
  qed
qed (use assms that(1) in \<open>simp_all add: step_defs\<close>)

lemma srv_step_inv: "srv_step L H s inp out s' \<Longrightarrow> srv_inv s \<Longrightarrow> srv_inv s'"
proof (induction rule: srv_step.induct)
  case (srv_recv env m s c' out)
  have inv: "conn_inv (srv_conn s)" using srv_recv.prems by (simp add: srv_inv_def)
  from inv srv_recv.hyps show ?case
  proof (rule client_step_cases)
    assume "c' = srv_conn s" "out = []"
    then show ?thesis using srv_recv.prems by (simp add: srv_inv_def occupied_def)
  next
    fix b i internal
    assume "\<not> in_flight (srv_conn s) ! unat i" "out = [SpawnRpc i internal]"
      "c' = (srv_conn s)\<lparr>in_flight := (in_flight (srv_conn s))[unat i := True]\<rparr>"
    then show ?thesis
      using srv_recv.prems inv by (auto simp: srv_inv_def occupied_def conn_inv_def slot_simps)
  qed
next
  case (srv_finish i internal s res)
  then obtain ts where "tasks s = add_mset (i, internal) ts" by (metis multi_member_split)
  then show ?case using srv_finish.prems by (auto simp: srv_inv_def occupied_def)
next
  case (srv_crash i internal s)
  then obtain ts where "tasks s = add_mset (i, internal) ts" by (metis multi_member_split)
  then show ?case using srv_crash.prems by (auto simp: srv_inv_def occupied_def)
next
  case (srv_respond msg s env c' out)
  then obtain fs where fs: "finished s = add_mset msg fs" by (metis multi_member_split)
  obtain i res where msg: "msg = RPCResponse i res"
    using srv_respond.prems fs by (auto simp: srv_inv_def is_response_iff)
  have inv: "conn_inv (srv_conn s)" using srv_respond.prems by (simp add: srv_inv_def)
  have c': "c' = (srv_conn s)\<lparr>in_flight := (in_flight (srv_conn s))[unat i := False]\<rparr>"
    using srv_respond.hyps msg inv by (simp add: step_defs)
  show ?case
    unfolding srv_inv_def
  proof (intro conjI allI)
    fix j
    have "count (occupied s) j = (if in_flight (srv_conn s) ! unat j then 1 else 0)"
      using srv_respond.prems by (simp add: srv_inv_def)
    then show "count (occupied (s\<lparr>srv_conn := c', finished := finished s - {#msg#}\<rparr>)) j =
        (if in_flight (srv_conn (s\<lparr>srv_conn := c', finished := finished s - {#msg#}\<rparr>)) ! unat j then 1 else 0)"
      using fs msg inv c' by (auto simp: occupied_def conn_inv_def slot_simps split: if_splits)
  qed (use srv_respond.prems fs c' in \<open>auto simp: srv_inv_def conn_inv_def\<close>)
next
  case (srv_push inp us ev n env s c' out)
  then have "in_flight c' = in_flight (srv_conn s)" by (blast intro: push_in_flight)
  then show ?case
    using srv_push.prems by (auto simp: srv_inv_def occupied_def conn_inv_def)
qed

interpretation srv_system: invariant_system "\<lambda>s s'. \<exists>inp out. srv_step L H s inp out s'" srv_inv for L H
  by unfold_locales (blast intro: srv_step_inv)

lemma srv_reach_inv: "srv_reach L H s0 s \<Longrightarrow> srv_inv s0 \<Longrightarrow> srv_inv s"
  unfolding srv_reach_def by (rule srv_system.inv_reachable)

lemma srv_step_crashed: "srv_step L H s inp out s' \<Longrightarrow> crashed s \<subseteq># crashed s'"
  by (induction rule: srv_step.induct) auto

lemma srv_reach_crashed: "srv_reach L H s0 s \<Longrightarrow> crashed s0 \<subseteq># crashed s"
  unfolding srv_reach_def
  by (induction rule: reachable.induct) (auto dest: srv_step_crashed intro: subset_mset.trans)

text \<open>The identifiers in use are distinct, so there are at most 256 of them.\<close>

lemma size_occupied_le:
  assumes "srv_inv s"
  shows "size (occupied s) \<le> 256"
proof -
  have "size (occupied s) = (\<Sum>i \<in> set_mset (occupied s). count (occupied s) i)"
    by (simp add: size_multiset_overloaded_eq)
  also have "\<dots> \<le> (\<Sum>i \<in> set_mset (occupied s). 1)"
    using assms by (intro sum_mono) (simp add: srv_inv_def)
  also have "\<dots> = card (set_mset (occupied s))" by simp
  also have "\<dots> \<le> card (UNIV :: u8 set)" by (rule card_mono) auto
  also have "\<dots> = 256" by (simp add: card_word)
  finally show ?thesis .
qed

section \<open>Properties\<close>

lemma conn_select_expected:
  "\<forall>m. ready_rpc r = Some m \<longrightarrow> is_response m \<Longrightarrow> conn_select r = Some inp \<Longrightarrow> expected inp"
  by (auto simp: conn_select_def is_response_iff split: option.splits)

lemma conn_loop_total:
  assumes "conn_inv c" "\<forall>p \<in> set rs. \<forall>m. ready_rpc (snd p) = Some m \<longrightarrow> is_response m"
  shows "\<exists>c' out. conn_loop L rs c = Returns (c', out) \<and> conn_inv c'"
  using assms
proof (induction rs arbitrary: c)
  case Nil
  then show ?case by simp
next
  case (Cons p rs)
  obtain env r where p: "p = (env, r)" by (cases p)
  have "\<exists>c' out. conn_iteration L env r c = Returns (c', out) \<and> conn_inv c'"
  proof (cases "conn_select r")
    case None
    then show ?thesis using Cons.prems by (simp add: conn_iteration_def)
  next
    case (Some inp)
    then have "expected inp" using Cons.prems(2) p by (intro conn_select_expected) auto
    with Some show ?thesis
      using conn_step_no_panic [OF Cons.prems(1)] conn_step_Returns_inv [OF Cons.prems(1)]
      by (fastforce simp: conn_iteration_def)
  qed
  then obtain c1 out where it: "conn_iteration L env r c = Returns (c1, out)" and c1: "conn_inv c1"
    by blast
  obtain c2 outs where "conn_loop L rs c1 = Returns (c2, outs)" "conn_inv c2"
    using Cons.IH [OF c1] Cons.prems(2) by auto
  with it p show ?case by simp
qed

text \<open>
  C28: nothing a client sends can panic its connection handler: as long as the RPC channel carries
  responses, every number of iterations of the loop returns, whatever bytes, errors and
  notifications arrive and whichever sends fail, and the in-flight table keeps its 256 entries.
\<close>

theorem connection_loop_never_panics:
  assumes "conn_inv c" and "\<forall>p \<in> set rs. \<forall>m. ready_rpc (snd p) = Some m \<longrightarrow> is_response m"
  shows "\<exists>c' out. conn_loop L rs c = Returns (c', out) \<and> length (in_flight c') = 256"
  using conn_loop_total [OF assms, of L] by (auto simp: conn_inv_def)

definition quiet :: conn_ready where
  "quiet = \<lparr>ready_rpc = None, ready_state = None, ready_event = None, ready_proxied = None, ready_client = None\<rparr>"

definition env_ok :: conn_env where
  "env_ok = \<lparr>worker_ok = True, ws_ok = True, switch_ok = True, rand_id = [9]\<rparr>"

theorem connection_loop_never_panics_witness:
  "\<exists>c' out. conn_loop demo_lib
      [(env_ok, quiet\<lparr>ready_client := Some (WsBinary [])\<rparr>),
       (env_ok, quiet\<lparr>ready_client := Some (WsBinary [1, 5, 42]), ready_rpc := Some (RPCResponse 7 (Inr []))\<rparr>),
       (env_ok, quiet\<lparr>ready_client := Some WsErr\<rparr>)] (conn_new 6 0) = Returns (c', out)
    \<and> length (in_flight c') = 256"
  by (rule connection_loop_never_panics) (auto simp: quiet_def)

text \<open>
  A request is served or ignored. A well-formed request whose identifier is free marks the
  identifier and starts one handler task with exactly the request's payload; a request whose
  identifier is in flight, bytes that do not decode, text frames and stream errors change nothing.
\<close>

theorem client_request_handling:
  assumes "conn_inv c" and "worker_ok env"
    and "decode_client_message L b = Some (RPCRequest i internal)"
    and "decode_client_message L b' = None"
  shows "conn_step L env (FromClient (WsBinary b)) c =
      (if in_flight c ! unat i then Returns (c, [])
       else Returns (c\<lparr>in_flight := (in_flight c)[unat i := True]\<rparr>, [SpawnRpc i internal]))
    \<and> (\<forall>m \<in> {WsBinary b', WsOther, WsErr}. conn_step L env (FromClient m) c = Returns (c, []))"
  using assms by (simp add: step_defs)

theorem client_request_handling_witness:
  "conn_step demo_lib env_ok (FromClient (WsBinary [1, 5, 42])) (conn_new 6 0) =
     Returns ((conn_new 6 0)\<lparr>in_flight := (in_flight (conn_new 6 0))[5 := True]\<rparr>, [SpawnRpc 5 [42]])
   \<and> conn_step demo_lib env_ok (FromClient WsErr) (conn_new 6 0) = Returns (conn_new 6 0, [])"
proof -
  have "\<not> in_flight (conn_new 6 0) ! 5" by (simp add: conn_new_def)
  with client_request_handling [of "conn_new 6 0" env_ok demo_lib "[1, 5, 42]" 5 "[42]" "[]"]
  show ?thesis by (simp add: env_ok_def)
qed

text \<open>
  C11: concurrency control against any client. In every reachable state the handler tasks of a
  connection, its undelivered responses and its crashed calls have pairwise different identifiers,
  exactly those marked in flight, so one identifier never has two handlers and at most 256 calls
  are in progress.
\<close>

theorem one_handler_per_request_id:
  assumes "srv_reach L H (srv_new level tx) s"
  shows "count (image_mset fst (tasks s) + image_mset resp_id (finished s) + crashed s) i
      = (if in_flight (srv_conn s) ! unat i then 1 else 0)
    \<and> size (tasks s) + size (finished s) + size (crashed s) \<le> 256"
proof -
  have inv: "srv_inv s" using srv_reach_inv [OF assms] srv_inv_new by simp
  moreover have "size (occupied s) = size (tasks s) + size (finished s) + size (crashed s)"
    by (simp add: occupied_def)
  ultimately show ?thesis
    using size_occupied_le [OF inv] by (auto simp: srv_inv_def occupied_def)
qed

definition example_srv :: srv where
  "example_srv = (srv_new 6 0)\<lparr>srv_conn := (conn_new 6 0)\<lparr>in_flight := (replicate 256 False)[5 := True]\<rparr>,
     tasks := {#(5, [42])#}\<rparr>"

lemma example_srv_reach: "srv_reach demo_lib H (srv_new 6 0) example_srv"
proof -
  have c: "conn_step demo_lib env_ok (FromClient (WsBinary [1, 5, 42])) (srv_conn (srv_new 6 0)) =
      Returns ((conn_new 6 0)\<lparr>in_flight := (replicate 256 False)[5 := True]\<rparr>, [SpawnRpc 5 [42]])"
    by (simp add: step_defs srv_new_def env_ok_def) (simp add: conn_new_def)
  have "srv_step demo_lib H (srv_new 6 0) (Some (WsBinary [1, 5, 42])) [] example_srv"
    using srv_recv [OF c, of H] by (simp add: example_srv_def srv_new_def)
  then show ?thesis by (rule srv_more [OF srv_refl])
qed

theorem one_handler_per_request_id_witness:
  "srv_reach demo_lib (\<lambda>a b. True) (srv_new 6 0) example_srv
   \<and> count (image_mset fst (tasks example_srv) + image_mset resp_id (finished example_srv) + crashed example_srv) 5
       = (if in_flight (srv_conn example_srv) ! unat (5 :: u8) then 1 else 0)"
  using one_handler_per_request_id [OF example_srv_reach [of "\<lambda>a b. True"], where i = 5]
    example_srv_reach [of "\<lambda>a b. True"] by blast

text \<open>
  C38: the identifier of a call whose handler panicked is lost for good. In every later state it is
  still marked in flight with no task and no response for it, so that every further request with
  that identifier is ignored: no \<open>HandlerPanicked\<close> response is ever produced for it.
\<close>

theorem crashed_call_blocks_its_id:
  assumes "srv_reach L H (srv_new level tx) s" and "i \<in># crashed s" and "srv_reach L H s s'"
    and "decode_client_message L b = Some (RPCRequest i internal)"
  shows "in_flight (srv_conn s') ! unat i
    \<and> (\<forall>m. (i, m) \<notin># tasks s') \<and> (\<forall>res. RPCResponse i res \<notin># finished s')
    \<and> conn_step L env (FromClient (WsBinary b)) (srv_conn s') = Returns (srv_conn s', [])"
proof -
  have inv: "srv_inv s'"
    using srv_reach_inv [OF assms(3)] srv_reach_inv [OF assms(1)] srv_inv_new by simp
  have i: "i \<in># crashed s'" using srv_reach_crashed [OF assms(3)] assms(2) by (rule mset_subset_eqD)
  have "count (occupied s') i = (if in_flight (srv_conn s') ! unat i then 1 else 0)"
    using inv by (simp add: srv_inv_def)
  moreover have "count (crashed s') i > 0" using i by simp
  ultimately have fl: "in_flight (srv_conn s') ! unat i"
    and zero: "count (image_mset fst (tasks s')) i = 0" "count (image_mset resp_id (finished s')) i = 0"
    by (auto simp: occupied_def simp del: count_greater_zero_iff split: if_splits)
  have "i \<notin> fst ` set_mset (tasks s')" "i \<notin> resp_id ` set_mset (finished s')"
    using zero by (simp_all add: count_eq_zero_iff)
  then have "(\<forall>m. (i, m) \<notin># tasks s') \<and> (\<forall>res. RPCResponse i res \<notin># finished s')"
    by (metis fst_conv image_eqI resp_id.simps(1))
  moreover have "conn_step L env (FromClient (WsBinary b)) (srv_conn s') = Returns (srv_conn s', [])"
    using inv fl assms(4) by (simp add: step_defs srv_inv_def)
  ultimately show ?thesis using fl by blast
qed

definition example_crashed :: srv where
  "example_crashed = example_srv\<lparr>tasks := {#}, crashed := {#5#}\<rparr>"

lemma example_crashed_reach: "srv_reach demo_lib H (srv_new 6 0) example_crashed"
proof -
  have "srv_step demo_lib H example_srv None [] example_crashed"
    using srv_crash [of 5 "[42]" example_srv demo_lib H]
    by (simp add: example_crashed_def example_srv_def srv_new_def)
  then show ?thesis by (rule srv_more [OF example_srv_reach])
qed

theorem crashed_call_blocks_its_id_witness:
  "conn_step demo_lib env_ok (FromClient (WsBinary [1, 5, 43])) (srv_conn example_crashed) =
     Returns (srv_conn example_crashed, [])"
  using crashed_call_blocks_its_id [OF example_crashed_reach [of "\<lambda>a b. True"] _ srv_refl,
      where i = 5 and b = "[1, 5, 43]" and internal = "[43]" and env = env_ok]
  by (simp add: example_crashed_def)

end
