(* ===== verification/HL_Client.thy ===== *)
theory HL_Client
  imports HL_Demo HL_State
begin

text \<open>
  The client runtime of \<open>src/client.rs\<close>: the loop of \<open>Client::connect\<close> after the handshake. It
  gives each RPC request of the application a free identifier, remembers the sender its response
  goes to, and handles what the server sends. The application's senders are values of any type
  \<open>'tx\<close>; the state is any type with \<open>apply_changes\<close>.
\<close>

section \<open>State, inputs and effects\<close>

record ('tx, 'st) client =
  active_rpc_calls :: "'tx option list"
  cl_state :: 'st
  cl_compression :: nat

definition client_new :: "'st \<Rightarrow> nat \<Rightarrow> ('tx, 'st) client" where
  "client_new dflt level = \<lparr>active_rpc_calls = replicate 256 None, cl_state = dflt, cl_compression = level\<rparr>"

datatype 'tx client_input =
    AppCall bytes 'tx
  | FromServer ws_in
  | Shutdown

datatype 'tx client_effect =
    Complete 'tx "bytes handler_result"
  | CSend bytes
  | Broadcast event

datatype flow = Continue | Break

section \<open>The branches of the loop\<close>

text \<open>\<open>ok\<close> says whether the socket takes the message.\<close>

definition on_app_call ::
  "('enc, 'dec) hl_lib \<Rightarrow> bool \<Rightarrow> bytes \<Rightarrow> 'tx \<Rightarrow> ('tx, 'st) client \<Rightarrow> ('tx, 'st) client \<times> 'tx client_effect list" where
  "on_app_call L ok internal completion_tx c =
     (case position (\<lambda>x. x = None) (active_rpc_calls c) of
        Some i \<Rightarrow>
          (case to_bytes (lib_client L) (RPCRequest (of_nat i) internal) of
             None \<Rightarrow> (c, [Complete completion_tx (Inl ClientEncodeError)])
           | Some b \<Rightarrow>
               (case deflate (lib_flate L) b (cl_compression c) of
                  None \<Rightarrow> (c, [Complete completion_tx (Inl ClientCompressError)])
                | Some msg \<Rightarrow>
                    (if ok
                     then (c\<lparr>active_rpc_calls := (active_rpc_calls c)[i := Some completion_tx]\<rparr>, [CSend msg])
                     else (c, [Complete completion_tx (Inl ClientNotConnected)]))))
      | None \<Rightarrow> (c, [Complete completion_tx (Inl TooManyCallsInFlight)]))"

definition on_server_message ::
  "('st \<Rightarrow> state_update list \<Rightarrow> 'st \<times> unit handler_result) \<Rightarrow> server_message \<Rightarrow> ('tx, 'st) client \<Rightarrow>
   (('tx, 'st) client \<times> 'tx client_effect list) outcome" where
  "on_server_message apply_upd msg c =
     (case msg of
        RPCResponse i output \<Rightarrow>
          and_then (array_get (active_rpc_calls c) (unat i)) (\<lambda>slot.
            case slot of
              Some completion_tx \<Rightarrow>
                and_then (array_set (active_rpc_calls c) (unat i) None) (\<lambda>a.
                  Returns (c\<lparr>active_rpc_calls := a\<rparr>, [Complete completion_tx output]))
            | None \<Rightarrow> Returns (c, []))
      | StateChange changes \<Rightarrow>
          Returns (c\<lparr>cl_state := fst (apply_upd (cl_state c) changes)\<rparr>, [])
      | NewEvent t payload \<Rightarrow> Returns (c, [Broadcast \<lparr>ev_topic = t, ev_payload = payload\<rparr>]))"

definition decode_server_frame :: "('enc, 'dec) hl_lib \<Rightarrow> ws_in \<Rightarrow> server_message option" where
  "decode_server_frame L m =
     (case m of
        WsBinary b \<Rightarrow>
          (case inflate (lib_flate L) b of
             None \<Rightarrow> None
           | Some b' \<Rightarrow> from_bytes (lib_server L) b')
      | _ \<Rightarrow> None)"

fun client_step ::
  "('st \<Rightarrow> state_update list \<Rightarrow> 'st \<times> unit handler_result) \<Rightarrow> ('enc, 'dec) hl_lib \<Rightarrow> bool \<Rightarrow>
   'tx client_input \<Rightarrow> ('tx, 'st) client \<Rightarrow> (flow \<times> ('tx, 'st) client \<times> 'tx client_effect list) outcome" where
  "client_step apply_upd L ok (AppCall internal tx) c = Returns (Continue, on_app_call L ok internal tx c)"
| "client_step apply_upd L ok (FromServer m) c =
     (case decode_server_frame L m of
        None \<Rightarrow> Returns (Continue, c, [])
      | Some msg \<Rightarrow> and_then (on_server_message apply_upd msg c) (\<lambda>r. Returns (Continue, r)))"
| "client_step apply_upd L ok Shutdown c = Returns (Break, c, [])"

text \<open>The loop over the inputs the \<open>select!\<close> picks, until the application asks to shut down.\<close>

fun client_loop ::
  "('st \<Rightarrow> state_update list \<Rightarrow> 'st \<times> unit handler_result) \<Rightarrow> ('enc, 'dec) hl_lib \<Rightarrow>
   (bool \<times> 'tx client_input) list \<Rightarrow> ('tx, 'st) client \<Rightarrow> (flow \<times> ('tx, 'st) client \<times> 'tx client_effect list) outcome" where
  "client_loop apply_upd L [] c = Returns (Continue, c, [])"
| "client_loop apply_upd L ((ok, inp) # ins) c =
     and_then (client_step apply_upd L ok inp c) (\<lambda>(fl, c', out).
       case fl of
         Break \<Rightarrow> Returns (Break, c', out)
       | Continue \<Rightarrow>
           and_then (client_loop apply_upd L ins c') (\<lambda>(fl', c'', outs). Returns (fl', c'', out @ outs)))"

section \<open>Invariant and one-step facts\<close>

definition client_inv :: "('tx, 'st) client \<Rightarrow> bool" where
  "client_inv c \<longleftrightarrow> length (active_rpc_calls c) = 256"

lemma client_inv_new [simp]: "client_inv (client_new dflt level)"
  by (simp add: client_inv_def client_new_def)

lemma on_app_call_inv: "client_inv c \<Longrightarrow> client_inv (fst (on_app_call L ok internal tx c))"
  by (auto simp: on_app_call_def client_inv_def split: option.splits)

lemma on_server_message_eq [step_defs]:
  assumes "client_inv c"
  shows "on_server_message f (RPCResponse i output) c =
      (case active_rpc_calls c ! unat i of
         Some tx \<Rightarrow> Returns (c\<lparr>active_rpc_calls := (active_rpc_calls c)[unat i := None]\<rparr>, [Complete tx output])
       | None \<Rightarrow> Returns (c, []))"
    and "on_server_message f (StateChange us) c = Returns (c\<lparr>cl_state := fst (f (cl_state c) us)\<rparr>, [])"
    and "on_server_message f (NewEvent t p) c = Returns (c, [Broadcast \<lparr>ev_topic = t, ev_payload = p\<rparr>])"
  using assms by (simp_all add: on_server_message_def client_inv_def split: option.split)

lemma on_server_message_total:
  assumes "client_inv c"
  shows "\<exists>c' out. on_server_message f m c = Returns (c', out) \<and> client_inv c'"
  using assms by (cases m) (auto simp: step_defs client_inv_def split: option.split)

lemma client_step_total:
  assumes "client_inv c"
  shows "\<exists>fl c' out. client_step f L ok inp c = Returns (fl, c', out) \<and> client_inv c'"
proof (cases inp)
  case (AppCall internal tx)
  then show ?thesis
    using on_app_call_inv [OF assms] by (metis client_step.simps(1) prod.collapse)
next
  case (FromServer m)
  show ?thesis
  proof (cases "decode_server_frame L m")
    case None
    then show ?thesis using FromServer assms by simp
  next
    case (Some msg)
    moreover obtain c' out where "on_server_message f msg c = Returns (c', out)" "client_inv c'"
      using on_server_message_total [OF assms] by blast
    ultimately show ?thesis using FromServer by simp
  qed
next
  case Shutdown
  then show ?thesis using assms by simp
qed

lemma client_loop_total:
  "client_inv c \<Longrightarrow> \<exists>fl c' out. client_loop f L ins c = Returns (fl, c', out) \<and> client_inv c'"
proof (induction ins arbitrary: c)
  case Nil
  then show ?case by simp
next
  case (Cons p ins)
  obtain ok inp where p: "p = (ok, inp)" by (cases p)
  obtain fl c1 out where s: "client_step f L ok inp c = Returns (fl, c1, out)" and c1: "client_inv c1"
    using client_step_total [OF Cons.prems] by blast
  show ?case using Cons.IH [OF c1] s c1 p by (cases fl) fastforce+
qed

section \<open>Accounting for the application's calls\<close>

fun completions :: "'tx client_effect list \<Rightarrow> 'tx list" where
  "completions [] = []"
| "completions (Complete tx r # es) = tx # completions es"
| "completions (_ # es) = completions es"

text \<open>The calls handed to the loop before it stops.\<close>

fun submissions :: "(bool \<times> 'tx client_input) list \<Rightarrow> 'tx list" where
  "submissions [] = []"
| "submissions ((ok, AppCall internal tx) # ins) = tx # submissions ins"
| "submissions ((ok, FromServer m) # ins) = submissions ins"
| "submissions ((ok, Shutdown) # ins) = []"

lemma completions_append [simp]: "completions (xs @ ys) = completions xs @ completions ys"
  by (induction xs rule: completions.induct) auto

text \<open>Every step keeps the balance: calls pending before plus new ones are completed or still pending.\<close>

lemma on_app_call_balance:
  assumes "on_app_call L ok internal tx c = (c', out)"
  shows "{#tx#} + occupants (active_rpc_calls c) = mset (completions out) + occupants (active_rpc_calls c')"
proof (cases "position (\<lambda>x. x = None) (active_rpc_calls c)")
  case None
  then show ?thesis using assms by (auto simp: on_app_call_def)
next
  case (Some i)
  then have "occupants ((active_rpc_calls c)[i := Some tx]) = add_mset tx (occupants (active_rpc_calls c))"
    by (intro occupants_fill) (auto dest: position_SomeD)
  then show ?thesis
    using assms Some by (auto simp: on_app_call_def split: option.splits if_splits)
qed

lemma on_server_message_balance:
  assumes "client_inv c" "on_server_message f m c = Returns (c', out)"
  shows "{#} + occupants (active_rpc_calls c) = mset (completions out) + occupants (active_rpc_calls c')"
proof (cases m)
  case (RPCResponse i res)
  show ?thesis
  proof (cases "active_rpc_calls c ! unat i")
    case None
    then show ?thesis using assms RPCResponse by (simp add: step_defs)
  next
    case (Some tx)
    then show ?thesis
      using assms RPCResponse occupants_take [of "unat i" "active_rpc_calls c" tx]
      by (auto simp: step_defs client_inv_def)
  qed
qed (use assms in \<open>auto simp: step_defs\<close>)

lemma balance_trans:
  assumes "A + x = y + (x1 :: 'a multiset)" "B + x1 = z + x2"
  shows "(A + B) + x = (y + z) + x2"
  using assms by (metis union_assoc union_commute)

lemma client_loop_balance:
  assumes "client_inv c" "client_loop f L ins c = Returns (fl, c', out)"
  shows "mset (submissions ins) + occupants (active_rpc_calls c)
    = mset (completions out) + occupants (active_rpc_calls c')"
  using assms
proof (induction ins arbitrary: c out)
  case Nil
  then show ?case by simp
next
  case (Cons p ins)
  obtain ok inp where p: "p = (ok, inp)" by (cases p)
  obtain fl1 c1 out1 where s: "client_step f L ok inp c = Returns (fl1, c1, out1)" and c1: "client_inv c1"
    using client_step_total [OF Cons.prems(1)] by blast
  show ?case
  proof (cases inp)
    case (AppCall internal tx)
    then have fl1: "fl1 = Continue" and a: "on_app_call L ok internal tx c = (c1, out1)" using s by auto
    then obtain out2 where r: "client_loop f L ins c1 = Returns (fl, c', out2)" and out: "out = out1 @ out2"
      using Cons.prems(2) s p by (auto simp: and_then_Returns_iff)
    show ?thesis
      using balance_trans [OF on_app_call_balance [OF a] Cons.IH [OF c1 r]] p AppCall out by simp
  next
    case (FromServer m)
    then have "fl1 = Continue" and
      bal: "{#} + occupants (active_rpc_calls c) = mset (completions out1) + occupants (active_rpc_calls c1)"
      using s on_server_message_balance [OF Cons.prems(1), of f]
      by (auto simp: and_then_Returns_iff split: option.splits)
    then obtain out2 where r: "client_loop f L ins c1 = Returns (fl, c', out2)" and out: "out = out1 @ out2"
      using Cons.prems(2) s p by (auto simp: and_then_Returns_iff)
    show ?thesis using balance_trans [OF bal Cons.IH [OF c1 r]] p FromServer out by simp
  next
    case Shutdown
    then show ?thesis using Cons.prems(2) p by auto
  qed
qed

text \<open>The errors the client runtime answers a call with by itself.\<close>

definition local_errors :: "rpc_handler_error set" where
  "local_errors = {TooManyCallsInFlight, ClientEncodeError, ClientCompressError, ClientNotConnected}"

lemma on_app_call_cases:
  assumes "client_inv c" "hl_lib_law L" "on_app_call L ok internal tx c = (c', out)"
  obtains e where "c' = c" "out = [Complete tx (Inl e)]" "e \<in> local_errors"
  | (sent) i msg where "active_rpc_calls c ! unat (i :: u8) = None" "out = [CSend msg]"
      "decode_client_message L msg = Some (RPCRequest i internal)"
      "c' = c\<lparr>active_rpc_calls := (active_rpc_calls c)[unat i := Some tx]\<rparr>"
proof (cases "\<exists>msg. out = [CSend msg]")
  case True
  then obtain msg n b where msg: "out = [CSend msg]"
      and n: "position (\<lambda>x. x = None) (active_rpc_calls c) = Some n"
      and b: "to_bytes (lib_client L) (RPCRequest (of_nat n) internal) = Some b"
        "deflate (lib_flate L) b (cl_compression c) = Some msg"
      and c': "c' = c\<lparr>active_rpc_calls := (active_rpc_calls c)[n := Some tx]\<rparr>"
    using assms(3) by (auto simp: on_app_call_def split: option.splits if_splits)
  have "n < 256" using position_SomeD [OF n] assms(1) by (simp add: client_inv_def)
  then show thesis
    using sent [of "of_nat n" msg] msg c' position_SomeD(2) [OF n] decode_encoded_client [OF assms(2) b] by simp
next
  case False
  then have "c' = c \<and> (\<exists>e \<in> local_errors. out = [Complete tx (Inl e)])"
    using assms(3) by (auto simp: on_app_call_def local_errors_def split: option.splits if_splits)
  then show thesis using that(1) by blast
qed

section \<open>State changes through the loop\<close>

text \<open>
  For any state that keeps the contract of \<open>ClientState\<close>: a loop that only receives state changes
  ends with the state that applying them all gives.
\<close>

context client_state
begin

lemma client_loop_state_changes:
  assumes "list_all2 (\<lambda>p us. decode_server_frame L (snd p) = Some (StateChange us)) ms batches"
    and "client_inv c" and "apply_upd (cl_state c) (concat batches) = (st, Inr ())"
  shows "client_loop apply_upd L (map (\<lambda>(ok, m). (ok, FromServer m)) ms) c
    = Returns (Continue, c\<lparr>cl_state := st\<rparr>, [])"
proof -
  have "client_loop apply_upd L (map (\<lambda>(ok, m). (ok, FromServer m)) ms) c
      = Returns (Continue, c\<lparr>cl_state := fold (\<lambda>b s. fst (apply_upd s b)) batches (cl_state c)\<rparr>, [])"
    using assms(1,2)
  proof (induction ms batches arbitrary: c rule: list_all2_induct)
    case Nil
    then show ?case by simp
  next
    case (Cons p ms us batches)
    have "client_inv (c\<lparr>cl_state := s\<rparr>)" for s using Cons.prems by (simp add: client_inv_def)
    then show ?case
      using Cons by (cases p) (simp add: step_defs)
  qed
  then show ?thesis using fold_batches_concat [OF assms(3)] by simp
qed

end

section \<open>Properties\<close>

text \<open>
  C12: exactly one answer per call. Whatever the application submits and the server sends, the loop
  never panics, and the calls submitted so far (each sender counted) are exactly those completed
  plus those still in the table of active calls: no call is completed twice, none is forgotten.
\<close>

theorem every_call_accounted_for:
  "\<exists>fl c' out. client_loop f L ins (client_new dflt level) = Returns (fl, c', out)
    \<and> mset (submissions ins) = mset (completions out) + occupants (active_rpc_calls c')
    \<and> size (occupants (active_rpc_calls c')) \<le> 256"
proof -
  obtain fl c' out where r: "client_loop f L ins (client_new dflt level) = Returns (fl, c', out)"
    and inv: "client_inv c'"
    using client_loop_total [of "client_new dflt level"] by fastforce
  have "size (occupants (active_rpc_calls c')) \<le> 256"
    using size_occupants_le [of "active_rpc_calls c'"] inv by (simp add: client_inv_def)
  with r client_loop_balance [OF _ r] show ?thesis
    by (auto simp: client_new_def client_inv_def)
qed

text \<open>
  C34: identifier allocation. A call takes the lowest free identifier, which a byte represents
  without truncation; the request on the wire carries that identifier and the call's payload, and
  only that slot of the table changes. The call is refused with \<open>TooManyCallsInFlight\<close> exactly when
  all 256 identifiers are in use.
\<close>

theorem app_call_takes_lowest_free_id:
  assumes "client_inv c" and "hl_lib_law L" and "on_app_call L ok internal tx c = (c', out)"
  shows "(out = [Complete tx (Inl TooManyCallsInFlight)] \<longleftrightarrow> (\<forall>i :: u8. active_rpc_calls c ! unat i \<noteq> None))
    \<and> (\<forall>msg. out = [CSend msg] \<longrightarrow>
        (\<exists>i :: u8. active_rpc_calls c ! unat i = None \<and> (\<forall>j :: u8. j < i \<longrightarrow> active_rpc_calls c ! unat j \<noteq> None)
           \<and> decode_client_message L msg = Some (RPCRequest i internal)
           \<and> c' = c\<lparr>active_rpc_calls := (active_rpc_calls c)[unat i := Some tx]\<rparr>))
    \<and> ((\<forall>msg. out \<noteq> [CSend msg]) \<longrightarrow> c' = c \<and> (\<exists>e. out = [Complete tx (Inl e)]))"
proof (cases "position (\<lambda>x. x = None) (active_rpc_calls c)")
  case None
  have "active_rpc_calls c ! unat i \<noteq> None" for i :: u8
    using None assms(1) by (auto simp: position_None_iff client_inv_def in_set_conv_nth)
  then show ?thesis using None assms(3) by (auto simp: on_app_call_def)
next
  case (Some n)
  define i :: u8 where "i = of_nat n"
  have n: "n < 256" using position_SomeD [OF Some] assms(1) by (simp add: client_inv_def)
  then have i: "unat i = n" by (simp add: i_def)
  have free: "active_rpc_calls c ! unat i = None" using position_SomeD [OF Some] i by simp
  have least: "active_rpc_calls c ! unat j \<noteq> None" if "j < i" for j :: u8
    using Some that i by (auto simp: position_Some_iff word_less_nat_alt)
  have "decode_client_message L msg = Some (RPCRequest i internal)"
    if "to_bytes (lib_client L) (RPCRequest i internal) = Some b" "deflate (lib_flate L) b level = Some msg" for b level msg
    using decode_encoded_client [OF assms(2)] that by blast
  moreover have "\<not> (\<forall>i :: u8. active_rpc_calls c ! unat i \<noteq> None)" using free by blast
  ultimately show ?thesis
    using assms(3) Some free least i unfolding on_app_call_def i_def [symmetric]
    by (auto simp del: not_None_eq split: option.splits if_splits)
qed

theorem app_call_takes_lowest_free_id_witness:
  "on_app_call demo_lib True [42] (7 :: nat) (client_new () 6) =
     ((client_new () 6)\<lparr>active_rpc_calls := (active_rpc_calls (client_new () 6))[0 := Some 7]\<rparr>, [CSend [1, 0, 42]])
   \<and> (\<exists>i :: u8. active_rpc_calls (client_new () 6) ! unat i = (None :: nat option)
        \<and> decode_client_message demo_lib [1, 0, 42] = Some (RPCRequest i [42]))"
proof -
  have p: "position (\<lambda>x. x = None) (replicate 256 (None :: nat option)) = Some 0"
    by (simp add: numeral_eq_Suc)
  have a: "on_app_call demo_lib True [42] (7 :: nat) (client_new () 6) =
     ((client_new () 6)\<lparr>active_rpc_calls := (active_rpc_calls (client_new () 6))[0 := Some 7]\<rparr>, [CSend [1, 0, 42]])"
    using p by (simp add: on_app_call_def client_new_def)
  from app_call_takes_lowest_free_id [OF client_inv_new demo_lib_law a] have
    "\<exists>i :: u8. active_rpc_calls (client_new () 6) ! unat i = (None :: nat option)
        \<and> decode_client_message demo_lib [1, 0, 42] = Some (RPCRequest i [42])"
    by blast
  with a show ?thesis by (rule conjI)
qed

text \<open>
  Dispatch of what the server sends. A response completes exactly the call waiting under its
  identifier, with its output, and frees the identifier; a response nobody waits for, bytes that do
  not decode, text frames and stream errors change nothing; an event is broadcast with its topic and
  payload; a state change is applied to the state; nothing from the server stops the loop.
\<close>

theorem server_frame_dispatch:
  assumes "client_inv c"
  shows "client_step f L ok (FromServer m) c = Returns (Continue,
    (case decode_server_frame L m of
       None \<Rightarrow> (c, [])
     | Some (RPCResponse i res) \<Rightarrow>
         (case active_rpc_calls c ! unat i of
            Some tx \<Rightarrow> (c\<lparr>active_rpc_calls := (active_rpc_calls c)[unat i := None]\<rparr>, [Complete tx res])
          | None \<Rightarrow> (c, []))
     | Some (NewEvent t p) \<Rightarrow> (c, [Broadcast (event_new t p)])
     | Some (StateChange us) \<Rightarrow> (c\<lparr>cl_state := fst (f (cl_state c) us)\<rparr>, [])))"
  using assms by (simp add: step_defs event_new_def split: option.split server_message.split)

theorem server_frame_dispatch_witness:
  "client_step (\<lambda>s us. (s, Inr ())) demo_lib True (FromServer (WsBinary [1, 0, 5, 77]))
      ((client_new () 6)\<lparr>active_rpc_calls := (replicate 256 None)[5 := Some (3 :: nat)]\<rparr>)
    = Returns (Continue, (client_new () 6)\<lparr>active_rpc_calls := replicate 256 None\<rparr>, [Complete 3 (Inr [77])])"
proof -
  have d: "decode_server_frame demo_lib (WsBinary [1, 0, 5, 77]) = Some (RPCResponse 5 (Inr [77]))"
    by (simp add: decode_server_frame_def)
  have "((replicate 256 None)[5 := Some (3 :: nat)])[5 := None] = replicate 256 None"
    by (simp add: list_update_same_conv)
  with d show ?thesis
    using server_frame_dispatch [of "(client_new () 6)\<lparr>active_rpc_calls := (replicate 256 None)[5 := Some (3 :: nat)]\<rparr>"
        "\<lambda>s us. (s, Inr ())" demo_lib True "WsBinary [1, 0, 5, 77]"]
    by (simp add: client_inv_def)
qed

end
