(* ===== verification/HL_System.thy ===== *)
theory HL_System
  imports HL_Connection HL_Client
begin

text \<open>
  One client and its connection handler, end to end: the application's calls travel as compressed
  frames to the server, handler tasks answer them, and the answers travel back. An abstract
  protocol says what this must look like (each call is one token that moves from request to answer);
  the composition of the two loops is shown to implement it, and the properties of the protocol
  carry over. The network may lose and reorder frames.
\<close>

section \<open>The abstract protocol\<close>

datatype stage = Requested bytes | Answered "bytes handler_result" | Stuck

record 'tx proto =
  p_active :: "u8 \<Rightarrow> 'tx option"
  p_tokens :: "(u8 \<times> stage) multiset"
  p_submitted :: "('tx \<times> bytes) set"
  p_answered :: "('tx \<times> bytes handler_result) multiset"

inductive proto_step ::
  "(bytes \<Rightarrow> bytes handler_result \<Rightarrow> bool) \<Rightarrow> 'tx proto \<Rightarrow> 'tx proto \<Rightarrow> bool"
  for H :: "bytes \<Rightarrow> bytes handler_result \<Rightarrow> bool" where
  p_call: "tx \<notin> fst ` p_submitted s \<Longrightarrow> p_active s i = None \<Longrightarrow>
     proto_step H s (s\<lparr>p_active := (p_active s)(i \<mapsto> tx), p_tokens := add_mset (i, Requested internal) (p_tokens s),
       p_submitted := insert (tx, internal) (p_submitted s)\<rparr>)"
| p_refuse: "tx \<notin> fst ` p_submitted s \<Longrightarrow> e \<in> local_errors \<Longrightarrow>
     proto_step H s (s\<lparr>p_submitted := insert (tx, internal) (p_submitted s),
       p_answered := add_mset (tx, Inl e) (p_answered s)\<rparr>)"
| p_serve: "p_tokens s = add_mset (i, Requested internal) ts \<Longrightarrow> H internal res \<Longrightarrow>
     proto_step H s (s\<lparr>p_tokens := add_mset (i, Answered res) ts\<rparr>)"
| p_crash: "p_tokens s = add_mset (i, Requested internal) ts \<Longrightarrow>
     proto_step H s (s\<lparr>p_tokens := add_mset (i, Stuck) ts\<rparr>)"
| p_lose: "p_tokens s = add_mset t ts \<Longrightarrow> proto_step H s (s\<lparr>p_tokens := ts\<rparr>)"
| p_reply: "p_tokens s = add_mset (i, Answered res) ts \<Longrightarrow> p_active s i = Some tx \<Longrightarrow>
     proto_step H s (s\<lparr>p_active := (p_active s)(i := None), p_tokens := ts,
       p_answered := add_mset (tx, res) (p_answered s)\<rparr>)"
| p_stutter: "proto_step H s s"

text \<open>A token is justified by the call that waits under its identifier.\<close>

fun justified :: "(bytes \<Rightarrow> bytes handler_result \<Rightarrow> bool) \<Rightarrow> bytes \<Rightarrow> stage \<Rightarrow> bool" where
  "justified H internal (Requested internal') = (internal' = internal)"
| "justified H internal (Answered res) = H internal res"
| "justified H internal Stuck = True"

definition proto_inv :: "(bytes \<Rightarrow> bytes handler_result \<Rightarrow> bool) \<Rightarrow> 'tx proto \<Rightarrow> bool" where
  "proto_inv H s \<longleftrightarrow>
     (\<forall>i. count (image_mset fst (p_tokens s)) i \<le> (if p_active s i = None then 0 else 1))
   \<and> (\<forall>i st. (i, st) \<in># p_tokens s \<longrightarrow>
        (\<exists>tx internal. p_active s i = Some tx \<and> (tx, internal) \<in> p_submitted s \<and> justified H internal st))
   \<and> (\<forall>tx res. (tx, res) \<in># p_answered s \<longrightarrow>
        (\<exists>internal. (tx, internal) \<in> p_submitted s \<and> (H internal res \<or> res \<in> Inl ` local_errors)))
   \<and> (\<forall>tx. count (image_mset fst (p_answered s)) tx + card {i. p_active s i = Some tx}
        = (if tx \<in> fst ` p_submitted s then 1 else 0))"

lemma proto_invD:
  assumes "proto_inv H s"
  shows "count (image_mset fst (p_tokens s)) i \<le> (if p_active s i = None then 0 else 1)"
    and "(i, st) \<in># p_tokens s \<Longrightarrow>
        \<exists>tx internal. p_active s i = Some tx \<and> (tx, internal) \<in> p_submitted s \<and> justified H internal st"
    and "(tx, res) \<in># p_answered s \<Longrightarrow>
        \<exists>internal. (tx, internal) \<in> p_submitted s \<and> (H internal res \<or> res \<in> Inl ` local_errors)"
    and "count (image_mset fst (p_answered s)) tx + card {i. p_active s i = Some tx}
        = (if tx \<in> fst ` p_submitted s then 1 else 0)"
  using assms unfolding proto_inv_def by blast+

lemma no_token_for_free_id:
  assumes "proto_inv H s" "p_active s i = None"
  shows "(i, st) \<notin># p_tokens s"
  using proto_invD(2) [OF assms(1)] assms(2) by fastforce

lemma fresh_not_active:
  assumes "proto_inv H s" "tx \<notin> fst ` p_submitted s"
  shows "p_active s i \<noteq> Some tx" and "count (image_mset fst (p_answered s)) tx = 0"
proof -
  have z: "count (image_mset fst (p_answered s)) tx + card {i. p_active s i = Some tx} = 0"
    using proto_invD(4) [OF assms(1), of tx] assms(2) by simp
  then have "{i. p_active s i = Some tx} = {}" by simp
  then show "p_active s i \<noteq> Some tx" by blast
  show "count (image_mset fst (p_answered s)) tx = 0" using z by simp
qed

lemma proto_inv_call:
  assumes inv: "proto_inv H s" and fresh: "tx \<notin> fst ` p_submitted s" and free: "p_active s i = None"
  shows "proto_inv H (s\<lparr>p_active := (p_active s)(i \<mapsto> tx), p_tokens := add_mset (i, Requested internal) (p_tokens s),
       p_submitted := insert (tx, internal) (p_submitted s)\<rparr>)"
  unfolding proto_inv_def
proof (intro conjI allI impI, goal_cases)
  case (1 j)
  then show ?case using proto_invD(1) [OF inv, of j] proto_invD(1) [OF inv, of i] free by auto
next
  case (2 j st)
  then consider "j = i" "st = Requested internal" | "(j, st) \<in># p_tokens s" by auto
  then show ?case
  proof cases
    case 2
    then have "j \<noteq> i" using no_token_for_free_id [OF inv free] by blast
    with 2 show ?thesis using proto_invD(2) [OF inv] by fastforce
  qed simp
next
  case (3 tx' res)
  then show ?case using proto_invD(3) [OF inv, of tx' res] by auto
next
  case (4 tx')
  have "{j. ((p_active s)(i \<mapsto> tx)) j = Some tx'} =
      (if tx' = tx then {i} else {j. p_active s j = Some tx'})"
    using fresh_not_active(1) [OF inv fresh] free by auto
  then show ?case
    using proto_invD(4) [OF inv, of tx'] fresh_not_active(2) [OF inv fresh] fresh by auto
qed

lemma proto_inv_refuse:
  assumes inv: "proto_inv H s" and fresh: "tx \<notin> fst ` p_submitted s" and e: "e \<in> local_errors"
  shows "proto_inv H (s\<lparr>p_submitted := insert (tx, internal) (p_submitted s),
       p_answered := add_mset (tx, Inl e) (p_answered s)\<rparr>)"
  unfolding proto_inv_def
proof (intro conjI allI impI, goal_cases)
  case (1 j)
  then show ?case using proto_invD(1) [OF inv, of j] by simp
next
  case (2 j st)
  then show ?case using proto_invD(2) [OF inv] by fastforce
next
  case (3 tx' res)
  then show ?case using proto_invD(3) [OF inv, of tx' res] e by auto
next
  case (4 tx')
  then show ?case
    using proto_invD(4) [OF inv, of tx'] fresh_not_active [OF inv fresh] fresh by auto
qed

text \<open>Moving one token on, or dropping it, keeps the invariant.\<close>

lemma proto_inv_token:
  assumes inv: "proto_inv H s" and ts: "p_tokens s = add_mset (i, st) ts"
    and new: "new = {#} \<or> (\<exists>st'. new = {#(i, st')#} \<and> (\<forall>internal. justified H internal st \<longrightarrow> justified H internal st'))"
  shows "proto_inv H (s\<lparr>p_tokens := new + ts\<rparr>)"
  unfolding proto_inv_def
proof (intro conjI allI impI, goal_cases)
  case (1 j)
  then show ?case using proto_invD(1) [OF inv, of j] ts new by (auto split: if_splits)
next
  case (2 j st')
  have "(i, st) \<in># p_tokens s" using ts by simp
  with 2 new show ?case using proto_invD(2) [OF inv] ts by fastforce
next
  case (3 tx' res)
  then show ?case using proto_invD(3) [OF inv, of tx' res] by auto
next
  case (4 tx')
  then show ?case using proto_invD(4) [OF inv, of tx'] by simp
qed

lemma proto_inv_reply:
  assumes inv: "proto_inv H s" and ts: "p_tokens s = add_mset (i, Answered res) ts"
    and act: "p_active s i = Some tx"
  shows "proto_inv H (s\<lparr>p_active := (p_active s)(i := None), p_tokens := ts,
       p_answered := add_mset (tx, res) (p_answered s)\<rparr>)"
  unfolding proto_inv_def
proof (intro conjI allI impI, goal_cases)
  case (1 j)
  then show ?case using proto_invD(1) [OF inv, of j] ts act by (auto split: if_splits)
next
  case (2 j st)
  have "count (image_mset fst ts) i = 0"
    using proto_invD(1) [OF inv, of i] ts act by simp
  then have "j \<noteq> i" using 2 by (auto simp: count_eq_zero_iff rev_image_eqI)
  moreover have "(j, st) \<in># p_tokens s" using 2 ts by simp
  ultimately show ?case using proto_invD(2) [OF inv] by fastforce
next
  case (3 tx' r)
  have "(i, Answered res) \<in># p_tokens s" using ts by simp
  then obtain internal where "(tx, internal) \<in> p_submitted s" "H internal res"
    using proto_invD(2) [OF inv, of i "Answered res"] act by auto
  moreover have "(tx', r) = (tx, res) \<or> (tx', r) \<in># p_answered s" using 3 by simp
  ultimately show ?case using proto_invD(3) [OF inv, of tx' r] by force
next
  case (4 tx')
  let ?A = "{j. p_active s j = Some tx'}"
  show ?case
  proof (cases "tx' = tx")
    case True
    have e: "{j. ((p_active s)(i := None)) j = Some tx'} = ?A - {i}" by auto
    have "Suc (card (?A - {i})) = card ?A"
      using act True by (intro card_Suc_Diff1) auto
    then have "count (image_mset fst (add_mset (tx, res) (p_answered s))) tx' + card (?A - {i})
        = (if tx' \<in> fst ` p_submitted s then 1 else 0)"
      using proto_invD(4) [OF inv, of tx'] True by (simp del: card_Diff_insert)
    then show ?thesis unfolding e [symmetric] by simp
  next
    case False
    then have e: "{j. ((p_active s)(i := None)) j = Some tx'} = ?A" using act by auto
    show ?thesis using proto_invD(4) [OF inv, of tx'] False by (simp add: e del: fun_upd_apply)
  qed
qed

lemma proto_step_inv: "proto_step H s s' \<Longrightarrow> proto_inv H s \<Longrightarrow> proto_inv H s'"
proof (induction rule: proto_step.induct)
  case (p_serve s i internal ts res)
  then show ?case using proto_inv_token [of H s i "Requested internal" ts "{#(i, Answered res)#}"] by simp
next
  case (p_crash s i internal ts)
  then show ?case using proto_inv_token [of H s i "Requested internal" ts "{#(i, Stuck)#}"] by simp
next
  case (p_lose s t ts)
  then show ?case using proto_inv_token [of H s "fst t" "snd t" ts "{#}"] by simp
qed (simp_all add: proto_inv_call proto_inv_refuse proto_inv_reply)

section \<open>The composed system\<close>

record ('tx, 'st) sys =
  s_client :: "('tx, 'st) client"
  s_srv :: srv
  c2s :: "bytes multiset"
  s2c :: "bytes multiset"
  submitted :: "('tx \<times> bytes) set"
  answered :: "('tx \<times> bytes handler_result) multiset"

fun frames_out :: "'tx client_effect list \<Rightarrow> bytes list" where
  "frames_out [] = []"
| "frames_out (CSend b # es) = b # frames_out es"
| "frames_out (_ # es) = frames_out es"

fun answers_out :: "'tx client_effect list \<Rightarrow> ('tx \<times> bytes handler_result) list" where
  "answers_out [] = []"
| "answers_out (Complete tx res # es) = (tx, res) # answers_out es"
| "answers_out (_ # es) = answers_out es"

definition sys_new :: "'st \<Rightarrow> nat \<Rightarrow> nat \<Rightarrow> event_sender \<Rightarrow> ('tx, 'st) sys" where
  "sys_new dflt clevel slevel etx = \<lparr>s_client = client_new dflt clevel, s_srv = srv_new slevel etx,
     c2s = {#}, s2c = {#}, submitted = {}, answered = {#}\<rparr>"

text \<open>
  The application submits a call with a sender of its own, a frame arrives at either end, the
  server does something by itself, or a frame is lost.
\<close>

inductive sys_step ::
  "('st \<Rightarrow> state_update list \<Rightarrow> 'st \<times> unit handler_result) \<Rightarrow> ('enc, 'dec) hl_lib \<Rightarrow>
   (bytes \<Rightarrow> bytes handler_result \<Rightarrow> bool) \<Rightarrow> ('tx, 'st) sys \<Rightarrow> ('tx, 'st) sys \<Rightarrow> bool"
  for f :: "'st \<Rightarrow> state_update list \<Rightarrow> 'st \<times> unit handler_result" and L :: "('enc, 'dec) hl_lib"
    and H :: "bytes \<Rightarrow> bytes handler_result \<Rightarrow> bool" where
  sys_call: "tx \<notin> fst ` submitted s \<Longrightarrow>
     client_step f L ok (AppCall internal tx) (s_client s) = Returns (fl, c', out) \<Longrightarrow>
     sys_step f L H s (s\<lparr>s_client := c', c2s := c2s s + mset (frames_out out),
       submitted := insert (tx, internal) (submitted s), answered := answered s + mset (answers_out out)\<rparr>)"
| sys_request: "b \<in># c2s s \<Longrightarrow> srv_step L H (s_srv s) (Some (WsBinary b)) out v' \<Longrightarrow>
     sys_step f L H s (s\<lparr>s_srv := v', c2s := c2s s - {#b#}, s2c := s2c s + mset out\<rparr>)"
| sys_server: "srv_step L H (s_srv s) None out v' \<Longrightarrow>
     sys_step f L H s (s\<lparr>s_srv := v', s2c := s2c s + mset out\<rparr>)"
| sys_response: "b \<in># s2c s \<Longrightarrow>
     client_step f L ok (FromServer (WsBinary b)) (s_client s) = Returns (fl, c', out) \<Longrightarrow>
     sys_step f L H s (s\<lparr>s_client := c', s2c := s2c s - {#b#}, answered := answered s + mset (answers_out out)\<rparr>)"
| sys_lose_request: "b \<in># c2s s \<Longrightarrow> sys_step f L H s (s\<lparr>c2s := c2s s - {#b#}\<rparr>)"
| sys_lose_response: "b \<in># s2c s \<Longrightarrow> sys_step f L H s (s\<lparr>s2c := s2c s - {#b#}\<rparr>)"

definition sys_reach ::
  "('st \<Rightarrow> state_update list \<Rightarrow> 'st \<times> unit handler_result) \<Rightarrow> ('enc, 'dec) hl_lib \<Rightarrow>
   (bytes \<Rightarrow> bytes handler_result \<Rightarrow> bool) \<Rightarrow> ('tx, 'st) sys \<Rightarrow> ('tx, 'st) sys \<Rightarrow> bool" where
  "sys_reach f L H = reachable (sys_step f L H)"

lemma sys_refl: "sys_reach f L H s s"
  by (simp add: sys_reach_def reachable_refl)

lemma sys_more: "sys_reach f L H s0 s \<Longrightarrow> sys_step f L H s s' \<Longrightarrow> sys_reach f L H s0 s'"
  unfolding sys_reach_def by (rule reachable_step)

section \<open>Abstraction\<close>

text \<open>The frames and messages of interest, as tokens.\<close>

definition pick :: "('a \<Rightarrow> 'b option) \<Rightarrow> 'a multiset \<Rightarrow> 'b multiset" where
  "pick g M = image_mset (\<lambda>x. the (g x)) (filter_mset (\<lambda>x. g x \<noteq> None) M)"

lemma pick_simps [simp]:
  "pick g {#} = {#}"
  "pick g (add_mset x M) = (case g x of None \<Rightarrow> pick g M | Some y \<Rightarrow> add_mset y (pick g M))"
  "pick g (M + N) = pick g M + pick g N"
  by (auto simp: pick_def split: option.split)

fun request_token :: "client_message option \<Rightarrow> (u8 \<times> stage) option" where
  "request_token (Some (RPCRequest i internal)) = Some (i, Requested internal)"
| "request_token None = None"

fun response_token :: "server_message option \<Rightarrow> (u8 \<times> stage) option" where
  "response_token (Some (RPCResponse i res)) = Some (i, Answered res)"
| "response_token _ = None"

definition srv_tokens :: "srv \<Rightarrow> (u8 \<times> stage) multiset" where
  "srv_tokens v = image_mset (\<lambda>(i, internal). (i, Requested internal)) (tasks v)
     + pick (\<lambda>m. response_token (Some m)) (finished v) + image_mset (\<lambda>i. (i, Stuck)) (crashed v)"

definition abs_sys :: "('enc, 'dec) hl_lib \<Rightarrow> ('tx, 'st) sys \<Rightarrow> 'tx proto" where
  "abs_sys L s = \<lparr>p_active = (\<lambda>i. active_rpc_calls (s_client s) ! unat i),
     p_tokens = pick (\<lambda>b. request_token (decode_client_message L b)) (c2s s) + srv_tokens (s_srv s)
       + pick (\<lambda>b. response_token (decode_server_frame L (WsBinary b))) (s2c s),
     p_submitted = submitted s, p_answered = answered s\<rparr>"

definition sys_inv :: "('tx, 'st) sys \<Rightarrow> bool" where
  "sys_inv s \<longleftrightarrow> client_inv (s_client s) \<and> srv_inv (s_srv s)"

section \<open>The composition implements the protocol\<close>

lemma active_update_u8:
  "client_inv c \<Longrightarrow> (\<lambda>j. ((active_rpc_calls c)[unat (i :: u8) := v]) ! unat j) =
     (\<lambda>j. active_rpc_calls c ! unat j)(i := v)"
  by (auto simp: client_inv_def slot_simps fun_eq_iff)

lemma decode_sent_server:
  assumes "hl_lib_law L" "encode_server_message L level m = Some b"
  shows "decode_server_frame L (WsBinary b) = Some m"
proof -
  obtain raw where "inflate (lib_flate L) b = Some raw" "from_bytes (lib_server L) raw = Some m"
    using assms by (rule encode_server_message_decodes)
  then show ?thesis by (simp add: decode_server_frame_def)
qed

lemma ws_sends_send_msg:
  "hl_lib_law L \<Longrightarrow> ws_sends (fst (send_msg L level env m)) = [] \<or>
     (\<exists>b. ws_sends (fst (send_msg L level env m)) = [b] \<and> decode_server_frame L (WsBinary b) = Some m)"
  by (auto simp: send_msg_def decode_sent_server split: option.split)

text \<open>Losing an optional token is a step of the protocol.\<close>

lemma proto_lose_option:
  "p_tokens s = (case x of None \<Rightarrow> ts | Some t \<Rightarrow> add_mset t ts) \<Longrightarrow> proto_step H s (s\<lparr>p_tokens := ts\<rparr>)"
proof (cases x)
  case None
  moreover assume "p_tokens s = (case x of None \<Rightarrow> ts | Some t \<Rightarrow> add_mset t ts)"
  ultimately have "s\<lparr>p_tokens := ts\<rparr> = s" by simp
  then show ?thesis using p_stutter [of H s] by simp
next
  case (Some t)
  moreover assume "p_tokens s = (case x of None \<Rightarrow> ts | Some t \<Rightarrow> add_mset t ts)"
  ultimately show ?thesis by (intro p_lose) simp
qed

lemma sim_call:
  assumes law: "hl_lib_law L" and inv: "client_inv (s_client s)" and fresh: "tx \<notin> fst ` submitted s"
    and step: "client_step f L ok (AppCall internal tx) (s_client s) = Returns (fl, c', out)"
  shows "proto_step H (abs_sys L s) (abs_sys L (s\<lparr>s_client := c', c2s := c2s s + mset (frames_out out),
       submitted := insert (tx, internal) (submitted s), answered := answered s + mset (answers_out out)\<rparr>))"
proof -
  have "on_app_call L ok internal tx (s_client s) = (c', out)" using step by simp
  then show ?thesis
  proof (rule on_app_call_cases [OF inv law])
    fix e
    assume "c' = s_client s" "out = [Complete tx (Inl e)]" "e \<in> local_errors"
    then show ?thesis
      using p_refuse [of tx "abs_sys L s" e H internal] fresh by (simp add: abs_sys_def)
  next
    fix i msg
    assume "active_rpc_calls (s_client s) ! unat i = None" "out = [CSend msg]"
      "decode_client_message L msg = Some (RPCRequest i internal)"
      "c' = (s_client s)\<lparr>active_rpc_calls := (active_rpc_calls (s_client s))[unat i := Some tx]\<rparr>"
    then show ?thesis
      using p_call [of tx "abs_sys L s" i H internal] fresh
      by (simp add: abs_sys_def active_update_u8 [OF inv])
  qed
qed

lemma sim_request:
  assumes inv: "srv_inv (s_srv s)" and b: "b \<in># c2s s"
    and step: "srv_step L H (s_srv s) (Some (WsBinary b)) out v'"
  shows "proto_step H (abs_sys L s) (abs_sys L (s\<lparr>s_srv := v', c2s := c2s s - {#b#}, s2c := s2c s + mset out\<rparr>))"
proof -
  obtain N where N: "c2s s = add_mset b N" using b by (metis multi_member_split)
  from step obtain env c' eff where
    cs: "conn_step L env (FromClient (WsBinary b)) (srv_conn (s_srv s)) = Returns (c', eff)"
    and out: "out = ws_sends eff"
    and v': "v' = (s_srv s)\<lparr>srv_conn := c', tasks := tasks (s_srv s) + mset (spawned eff)\<rparr>"
    by (auto elim: srv_recvE)
  have "conn_inv (srv_conn (s_srv s))" using inv by (simp add: srv_inv_def)
  from this cs show ?thesis
  proof (rule client_step_cases)
    assume "c' = srv_conn (s_srv s)" "eff = []"
    then have "abs_sys L (s\<lparr>s_srv := v', c2s := c2s s - {#b#}, s2c := s2c s + mset out\<rparr>) =
        (abs_sys L s)\<lparr>p_tokens := pick (\<lambda>b. request_token (decode_client_message L b)) N + srv_tokens (s_srv s)
          + pick (\<lambda>b. response_token (decode_server_frame L (WsBinary b))) (s2c s)\<rparr>"
      using N v' out by (simp add: abs_sys_def srv_tokens_def)
    moreover have "p_tokens (abs_sys L s) = (case request_token (decode_client_message L b) of
        None \<Rightarrow> pick (\<lambda>b. request_token (decode_client_message L b)) N + srv_tokens (s_srv s)
          + pick (\<lambda>b. response_token (decode_server_frame L (WsBinary b))) (s2c s)
      | Some t \<Rightarrow> add_mset t (pick (\<lambda>b. request_token (decode_client_message L b)) N + srv_tokens (s_srv s)
          + pick (\<lambda>b. response_token (decode_server_frame L (WsBinary b))) (s2c s)))"
      using N by (simp add: abs_sys_def split: option.split)
    ultimately show ?thesis using proto_lose_option by simp
  next
    fix b' i internal
    assume "WsBinary b = WsBinary b'" "decode_client_message L b' = Some (RPCRequest i internal)"
      "eff = [SpawnRpc i internal]"
    then have "abs_sys L (s\<lparr>s_srv := v', c2s := c2s s - {#b#}, s2c := s2c s + mset out\<rparr>) = abs_sys L s"
      using N v' out by (simp add: abs_sys_def srv_tokens_def)
    then show ?thesis using p_stutter by simp
  qed
qed


text \<open>What a message handed to \<open>send_msg\<close> adds to the tokens on their way to the client.\<close>

lemma pick_ws_sends:
  assumes "hl_lib_law L"
  shows "pick (\<lambda>b. response_token (decode_server_frame L (WsBinary b)))
      (mset (ws_sends (fst (send_msg L level env m)))) \<in> {{#}, pick (\<lambda>m. response_token (Some m)) {#m#}}"
  using ws_sends_send_msg [OF assms, of level env m] by (auto split: option.split)

lemma push_sends_no_response:
  assumes "hl_lib_law L" "inp \<in> {StateChanges us, EventIn ev, Proxied n}"
    "conn_step L env inp c = Returns (c', out)"
  shows "pick (\<lambda>b. response_token (decode_server_frame L (WsBinary b))) (mset (ws_sends out)) = {#}"
proof (cases "inp = Proxied n")
  case True
  then show ?thesis using assms(3) by (cases n) (auto simp: Let_def split: if_splits option.splits)
next
  case False
  then have "inp = StateChanges us \<or> inp = EventIn ev" using assms(2) by blast
  then show ?thesis
    using assms(3) pick_ws_sends [OF assms(1), of "compression c" env] by fastforce
qed

lemma sim_server:
  assumes law: "hl_lib_law L" and inv: "srv_inv (s_srv s)" and step: "srv_step L H (s_srv s) None out v'"
  shows "proto_step H (abs_sys L s) (abs_sys L (s\<lparr>s_srv := v', s2c := s2c s + mset out\<rparr>))"
  using step
proof (cases rule: srv_step.cases)
  case (srv_finish i internal res)
  then obtain ts where ts: "tasks (s_srv s) = add_mset (i, internal) ts" by (metis multi_member_split)
  with srv_finish show ?thesis
    using p_serve [of "abs_sys L s" i internal _ H res]
    by (simp add: abs_sys_def srv_tokens_def)
next
  case (srv_crash i internal)
  then obtain ts where "tasks (s_srv s) = add_mset (i, internal) ts" by (metis multi_member_split)
  with srv_crash show ?thesis
    using p_crash [of "abs_sys L s" i internal _ H]
    by (simp add: abs_sys_def srv_tokens_def)
next
  case (srv_respond msg env c' eff)
  then obtain fs where fs: "finished (s_srv s) = add_mset msg fs" by (metis multi_member_split)
  obtain i res where msg: "msg = RPCResponse i res"
    using inv fs by (auto simp: srv_inv_def is_response_iff)
  have "conn_inv (srv_conn (s_srv s))" using inv by (simp add: srv_inv_def)
  then have out: "out = ws_sends (fst (send_msg L (compression (srv_conn (s_srv s))) env msg))"
    using srv_respond msg by (auto simp: step_defs)
  from pick_ws_sends [OF law, of "compression (srv_conn (s_srv s))" env msg] msg out
  consider "pick (\<lambda>b. response_token (decode_server_frame L (WsBinary b))) (mset out) = {#}"
    | "pick (\<lambda>b. response_token (decode_server_frame L (WsBinary b))) (mset out) = {#(i, Answered res)#}"
    by auto
  then show ?thesis
  proof cases
    case 1
    then show ?thesis
      using p_lose [of "abs_sys L s" "(i, Answered res)" _ H] srv_respond fs msg
      by (simp add: abs_sys_def srv_tokens_def)
  next
    case 2
    then show ?thesis
      using p_stutter [of H "abs_sys L s"] srv_respond fs msg
      by (simp add: abs_sys_def srv_tokens_def)
  qed
next
  case (srv_push inp us ev n env c' eff)
  then have "pick (\<lambda>b. response_token (decode_server_frame L (WsBinary b))) (mset out) = {#}"
    using push_sends_no_response [OF law] by blast
  then show ?thesis
    using p_stutter [of H "abs_sys L s"] srv_push by (simp add: abs_sys_def srv_tokens_def)
qed

lemma client_step_other_frame:
  assumes "client_inv c" "client_step f L ok (FromServer m) c = Returns (fl, c', out)"
    "\<nexists>i res tx. decode_server_frame L m = Some (RPCResponse i res) \<and> active_rpc_calls c ! unat i = Some tx"
  shows "active_rpc_calls c' = active_rpc_calls c \<and> answers_out out = []"
proof (cases "decode_server_frame L m")
  case None
  then show ?thesis using assms(2) by auto
next
  case (Some msg)
  then show ?thesis
  proof (cases msg)
    case (RPCResponse i res)
    then have "active_rpc_calls c ! unat i = None" using Some assms(3) by auto
    then show ?thesis using assms(1,2) Some RPCResponse by (auto simp: step_defs)
  qed (use assms(1,2) Some in \<open>auto simp: step_defs\<close>)
qed

lemma sim_response:
  assumes inv: "client_inv (s_client s)" and b: "b \<in># s2c s"
    and step: "client_step f L ok (FromServer (WsBinary b)) (s_client s) = Returns (fl, c', out)"
  shows "proto_step H (abs_sys L s)
    (abs_sys L (s\<lparr>s_client := c', s2c := s2c s - {#b#}, answered := answered s + mset (answers_out out)\<rparr>))"
proof -
  obtain N where N: "s2c s = add_mset b N" using b by (metis multi_member_split)
  show ?thesis
  proof (cases "\<exists>i res tx. decode_server_frame L (WsBinary b) = Some (RPCResponse i res)
      \<and> active_rpc_calls (s_client s) ! unat i = Some tx")
    case True
    then obtain i res tx where d: "decode_server_frame L (WsBinary b) = Some (RPCResponse i res)"
      and a: "active_rpc_calls (s_client s) ! unat i = Some tx" by blast
    then have "c' = (s_client s)\<lparr>active_rpc_calls := (active_rpc_calls (s_client s))[unat i := None]\<rparr>"
      "out = [Complete tx res]"
      using step inv by (auto simp: step_defs)
    then show ?thesis
      using p_reply [of "abs_sys L s" i res _ tx H] N d a
      by (simp add: abs_sys_def active_update_u8 [OF inv])
  next
    case False
    then have "active_rpc_calls c' = active_rpc_calls (s_client s) \<and> answers_out out = []"
      using client_step_other_frame [OF inv step] by blast
    then have c': "active_rpc_calls c' = active_rpc_calls (s_client s)" and out: "answers_out out = []"
      by simp_all
    let ?ts = "pick (\<lambda>b. request_token (decode_client_message L b)) (c2s s) + srv_tokens (s_srv s)
       + pick (\<lambda>b. response_token (decode_server_frame L (WsBinary b))) N"
    have "p_tokens (abs_sys L s) = (case response_token (decode_server_frame L (WsBinary b)) of
        None \<Rightarrow> ?ts | Some t \<Rightarrow> add_mset t ?ts)"
      using N by (simp add: abs_sys_def split: option.split)
    from proto_lose_option [OF this, of H] show ?thesis
      using c' out N by (simp add: abs_sys_def)
  qed
qed

lemma sim_lose:
  "b \<in># c2s s \<Longrightarrow> proto_step H (abs_sys L s) (abs_sys L (s\<lparr>c2s := c2s s - {#b#}\<rparr>))"
  "b \<in># s2c s \<Longrightarrow> proto_step H (abs_sys L s) (abs_sys L (s\<lparr>s2c := s2c s - {#b#}\<rparr>))"
proof -
  assume "b \<in># c2s s"
  then obtain N where N: "c2s s = add_mset b N" by (metis multi_member_split)
  let ?ts = "pick (\<lambda>b. request_token (decode_client_message L b)) N + srv_tokens (s_srv s)
     + pick (\<lambda>b. response_token (decode_server_frame L (WsBinary b))) (s2c s)"
  have "p_tokens (abs_sys L s) = (case request_token (decode_client_message L b) of
      None \<Rightarrow> ?ts | Some t \<Rightarrow> add_mset t ?ts)"
    using N by (simp add: abs_sys_def split: option.split)
  from proto_lose_option [OF this, of H]
  show "proto_step H (abs_sys L s) (abs_sys L (s\<lparr>c2s := c2s s - {#b#}\<rparr>))"
    using N by (simp add: abs_sys_def)
next
  assume "b \<in># s2c s"
  then obtain N where N: "s2c s = add_mset b N" by (metis multi_member_split)
  let ?ts = "pick (\<lambda>b. request_token (decode_client_message L b)) (c2s s) + srv_tokens (s_srv s)
     + pick (\<lambda>b. response_token (decode_server_frame L (WsBinary b))) N"
  have "p_tokens (abs_sys L s) = (case response_token (decode_server_frame L (WsBinary b)) of
      None \<Rightarrow> ?ts | Some t \<Rightarrow> add_mset t ?ts)"
    using N by (simp add: abs_sys_def split: option.split)
  from proto_lose_option [OF this, of H]
  show "proto_step H (abs_sys L s) (abs_sys L (s\<lparr>s2c := s2c s - {#b#}\<rparr>))"
    using N by (simp add: abs_sys_def)
qed

lemma client_step_inv:
  "client_inv c \<Longrightarrow> client_step f L ok inp c = Returns (fl, c', out) \<Longrightarrow> client_inv c'"
  using client_step_total [of c f L ok inp] by fastforce

lemma sys_step_inv: "sys_step f L H s s' \<Longrightarrow> sys_inv s \<Longrightarrow> sys_inv s'"
  by (induction rule: sys_step.induct)
    (auto simp: sys_inv_def simp del: client_step.simps dest: client_step_inv srv_step_inv)

lemma sys_step_simulates:
  assumes "hl_lib_law L"
  shows "sys_step f L H s s' \<Longrightarrow> sys_inv s \<Longrightarrow> proto_step H (abs_sys L s) (abs_sys L s')"
  by (induction rule: sys_step.induct)
    (auto simp: sys_inv_def simp del: client_step.simps intro: sim_call [OF assms] sim_request sim_server [OF assms] sim_response sim_lose)


section \<open>Reachable states\<close>

lemma sys_inv_new [simp]: "sys_inv (sys_new dflt clevel slevel etx)"
  by (simp add: sys_inv_def sys_new_def srv_inv_new)

lemma proto_inv_new: "proto_inv H (abs_sys L (sys_new dflt clevel slevel etx))"
  by (simp add: proto_inv_def abs_sys_def sys_new_def srv_tokens_def srv_new_def client_new_def)

interpretation proto_system: invariant_system "proto_step H" "proto_inv H" for H
  by unfold_locales (rule proto_step_inv)

interpretation sys_protocol: simulation "\<lambda>s s'. hl_lib_law L \<and> sys_step f L H s s'" sys_inv
    "proto_step H" "proto_inv H" "abs_sys L" for f L H
  by unfold_locales (blast intro: sys_step_inv sys_step_simulates)+

lemma sys_reach_simulates:
  assumes "hl_lib_law L" "sys_reach f L H (sys_new dflt clevel slevel etx) s"
  shows "sys_inv s" and "proto_inv H (abs_sys L s)"
    and "reachable (proto_step H) (abs_sys L (sys_new dflt clevel slevel etx)) (abs_sys L s)"
proof -
  have r: "reachable (\<lambda>s s'. hl_lib_law L \<and> sys_step f L H s s') (sys_new dflt clevel slevel etx) s"
    using assms by (simp add: sys_reach_def)
  show "sys_inv s" by (rule sys_protocol.inv_reachable [OF r sys_inv_new])
  show "proto_inv H (abs_sys L s)"
    by (rule sys_protocol.spec_invariant_reachable [OF r sys_inv_new proto_inv_new])
  show "reachable (proto_step H) (abs_sys L (sys_new dflt clevel slevel etx)) (abs_sys L s)"
    by (rule sys_protocol.simulates_reachable [OF r sys_inv_new])
qed

text \<open>A sender is used for one call, so it determines the call's payload.\<close>

lemma single_valued_insert_fresh:
  "x \<notin> fst ` R \<Longrightarrow> single_valued R \<Longrightarrow> single_valued (insert (x, y) R)"
  unfolding single_valued_def by (auto simp: image_iff)

lemma sys_step_submitted:
  "sys_step f L H s s' \<Longrightarrow> single_valued (submitted s) \<Longrightarrow> single_valued (submitted s')"
proof (induction rule: sys_step.induct)
  case (sys_call tx s ok internal fl c' out)
  then show ?case by (simp add: single_valued_insert_fresh)
qed simp_all

lemma sys_reach_submitted:
  "sys_reach f L H (sys_new dflt clevel slevel etx) s \<Longrightarrow> single_valued (submitted s)"
  unfolding sys_reach_def
  by (induction rule: reachable.induct) (simp add: sys_new_def, blast intro: sys_step_submitted)

lemma sys_reach_trans:
  "sys_reach f L H s1 s2 \<Longrightarrow> sys_reach f L H s0 s1 \<Longrightarrow> sys_reach f L H s0 s2"
  unfolding sys_reach_def by (rule reachable_trans)

text \<open>The identifiers of the server's tokens are those in progress on the connection.\<close>

lemma fst_srv_tokens:
  assumes "srv_inv v"
  shows "image_mset fst (srv_tokens v) = occupied v"
proof -
  have "image_mset fst (pick (\<lambda>m. response_token (Some m)) M) = image_mset resp_id M"
    if "\<forall>m \<in># M. is_response m" for M
    using that by (induction M) (auto simp: is_response_iff)
  moreover have "image_mset fst (image_mset (\<lambda>(i, internal). (i, Requested internal)) (tasks v)) = image_mset fst (tasks v)"
    by (simp add: image_mset.compositionality comp_def case_prod_beta)
  ultimately show ?thesis
    using assms by (simp add: srv_tokens_def occupied_def srv_inv_def image_mset.compositionality comp_def)
qed

lemma request_in_transit_is_free:
  assumes "sys_inv s" "proto_inv H (abs_sys L s)" "b \<in># c2s s"
    "decode_client_message L b = Some (RPCRequest i internal)"
  shows "\<not> in_flight (srv_conn (s_srv s)) ! unat i"
proof -
  obtain N where N: "c2s s = add_mset b N" using assms(3) by (metis multi_member_split)
  have v: "srv_inv (s_srv s)" using assms(1) by (simp add: sys_inv_def)
  have "count (image_mset fst (p_tokens (abs_sys L s))) i \<le> 1"
    using proto_invD(1) [OF assms(2), of i] by (simp split: if_splits)
  then have "count (occupied (s_srv s)) i = 0"
    using N assms(4) fst_srv_tokens [OF v] by (simp add: abs_sys_def)
  then show ?thesis using v by (auto simp: srv_inv_def split: if_splits)
qed

text \<open>A request on its way can be answered: receive it, run its handler, respond, deliver.\<close>

lemma answer_run:
  assumes law: "hl_lib_law L" and inv: "sys_inv s" "proto_inv H (abs_sys L s)"
    and b: "b \<in># c2s s" "decode_client_message L b = Some (RPCRequest i internal)"
    and tx: "active_rpc_calls (s_client s) ! unat i = Some tx" and res: "H internal res"
    and enc: "encode_server_message L (compression (srv_conn (s_srv s))) (RPCResponse i res) = Some r"
  shows "\<exists>s'. sys_reach f L H s s' \<and> answered s' = add_mset (tx, res) (answered s) \<and> submitted s' = submitted s"
proof -
  define v where "v = s_srv s"
  define env where "env = \<lparr>worker_ok = True, ws_ok = True, switch_ok = True, rand_id = []\<rparr>"
  define c1 where "c1 = (srv_conn v)\<lparr>in_flight := (in_flight (srv_conn v))[unat i := True]\<rparr>"
  define v1 where "v1 = v\<lparr>srv_conn := c1, tasks := add_mset (i, internal) (tasks v)\<rparr>"
  define v2 where "v2 = v\<lparr>srv_conn := c1, finished := add_mset (RPCResponse i res) (finished v)\<rparr>"
  define c3 where "c3 = c1\<lparr>in_flight := (in_flight c1)[unat i := False]\<rparr>"
  define s1 where "s1 = s\<lparr>s_srv := v1, c2s := c2s s - {#b#}\<rparr>"
  define s2 where "s2 = s1\<lparr>s_srv := v2\<rparr>"
  define s3 where "s3 = s2\<lparr>s_srv := v\<lparr>srv_conn := c3\<rparr>, s2c := add_mset r (s2c s2)\<rparr>"
  have cinv: "client_inv (s_client s)" "conn_inv (srv_conn v)"
    using inv(1) by (simp_all add: sys_inv_def srv_inv_def v_def)
  then have c1: "conn_inv c1" by (simp add: conn_inv_def c1_def)
  have e: "conn_step L env (FromClient (WsBinary b)) (srv_conn v) = Returns (c1, [SpawnRpc i internal])"
    using request_in_transit_is_free [OF inv b] cinv b(2) by (simp add: step_defs env_def c1_def v_def)
  have "srv_step L H v (Some (WsBinary b)) [] v1"
    using srv_recv [OF e, of H] by (simp add: v1_def)
  then have 1: "sys_step f L H s s1"
    using sys_request [of b s L H "[]" v1 f] b by (simp add: s1_def v_def)
  have "srv_step L H v1 None [] v2"
    using srv_finish [of i internal v1 H res L] res by (simp add: v1_def v2_def)
  then have 2: "sys_step f L H s1 s2"
    using sys_server [of L H s1 "[]" v2 f] by (simp add: s1_def s2_def)
  have e: "conn_step L env (RpcOut (RPCResponse i res)) (srv_conn v2) = Returns (c3, [WsSend r])"
    using c1 enc by (simp add: step_defs v2_def c3_def send_msg_def env_def v_def c1_def)
  have "srv_step L H v2 None [r] (v\<lparr>srv_conn := c3\<rparr>)"
    using srv_respond [OF _ e, of H] by (simp add: v2_def)
  then have 3: "sys_step f L H s2 s3"
    using sys_server [of L H s2 "[r]" "v\<lparr>srv_conn := c3\<rparr>" f] by (simp add: s1_def s2_def s3_def)
  have "client_step f L True (FromServer (WsBinary r)) (s_client s3) = Returns (Continue,
      (s_client s)\<lparr>active_rpc_calls := (active_rpc_calls (s_client s))[unat i := None]\<rparr>, [Complete tx res])"
    using decode_sent_server [OF law enc] cinv tx by (simp add: s1_def s2_def s3_def step_defs)
  from sys_response [OF _ this, of H] obtain s4 where 4: "sys_step f L H s3 s4"
    "answered s4 = add_mset (tx, res) (answered s)" "submitted s4 = submitted s" by (auto simp: s1_def s2_def s3_def)
  have "sys_reach f L H s s4"
    by (rule sys_more [OF sys_more [OF sys_more [OF sys_more [OF sys_refl 1] 2] 3] 4(1)])
  with 4 show ?thesis by blast
qed

text \<open>An answer is one the handler allows for the payload submitted, or an error of the client's own.\<close>

lemma answers_allowed:
  assumes "hl_lib_law L" "sys_reach f L H (sys_new dflt clevel slevel etx) s"
    and "(tx, internal) \<in> submitted s" "(tx, res) \<in># answered s"
  shows "H internal res \<or> res \<in> Inl ` local_errors"
proof -
  have inv: "proto_inv H (abs_sys L s)" using sys_reach_simulates(2) [OF assms(1,2)] by blast
  then obtain internal' where "(tx, internal') \<in> submitted s" "H internal' res \<or> res \<in> Inl ` local_errors"
    using proto_invD(3) [OF inv, of tx res] assms(4) by (auto simp: abs_sys_def)
  then show ?thesis using sys_reach_submitted [OF assms(2)] assms(3) by (auto simp: single_valued_def)
qed

section \<open>Properties\<close>

text \<open>
  C2: refinement. Every step of the composed system, from any reachable state, is a step of the
  abstract protocol (or changes nothing there), and the protocol's invariant holds in the state
  reached: the frames and loops of the two programs implement calls as tokens.
\<close>

theorem system_refines_protocol:
  assumes "hl_lib_law L" and "sys_reach f L H (sys_new dflt clevel slevel etx) s" and "sys_step f L H s s'"
  shows "proto_step H (abs_sys L s) (abs_sys L s')
    \<and> reachable (proto_step H) (abs_sys L (sys_new dflt clevel slevel etx)) (abs_sys L s')
    \<and> proto_inv H (abs_sys L s')"
  using sys_step_simulates [OF assms(1,3) sys_reach_simulates(1) [OF assms(1,2)]]
    sys_reach_simulates(2,3) [OF assms(1) sys_more [OF assms(2,3)]] by blast

text \<open>
  C1: answers are never mixed up. Whatever the network loses or reorders, every answer the client
  hands to a sender is an output the server's handler allows for the very payload submitted with
  that sender (or one of the client's own errors), each sender is answered at most once, and it is
  answered or still waiting.
\<close>

theorem rpc_answers_match_calls:
  assumes "hl_lib_law L" and "sys_reach f L H (sys_new dflt clevel slevel etx) s"
    and "(tx, internal) \<in> submitted s"
  shows "(\<forall>res. (tx, res) \<in># answered s \<longrightarrow> H internal res \<or> res \<in> Inl ` local_errors)
    \<and> count (image_mset fst (answered s)) tx
        + card {i :: u8. active_rpc_calls (s_client s) ! unat i = Some tx} = 1"
proof (intro conjI allI impI)
  show "H internal res \<or> res \<in> Inl ` local_errors" if "(tx, res) \<in># answered s" for res
    by (rule answers_allowed [OF assms that])
  have inv: "proto_inv H (abs_sys L s)" using sys_reach_simulates(2) [OF assms(1,2)] by blast
  have "tx \<in> fst ` submitted s" using assms(3) by force
  then show "count (image_mset fst (answered s)) tx
      + card {i :: u8. active_rpc_calls (s_client s) ! unat i = Some tx} = 1"
    using proto_invD(4) [OF inv, of tx] by (simp add: abs_sys_def)
qed

text \<open>
  C16: the server's duplicate check never drops a request of this client: when a request frame
  reaches the connection handler its identifier is free there, and a handler task is started with
  the request's payload.
\<close>

theorem client_request_never_ignored:
  assumes "hl_lib_law L" and "sys_reach f L H (sys_new dflt clevel slevel etx) s" and "b \<in># c2s s"
    and "decode_client_message L b = Some (RPCRequest i internal)" and "worker_ok env"
  shows "\<exists>c'. conn_step L env (FromClient (WsBinary b)) (srv_conn (s_srv s)) = Returns (c', [SpawnRpc i internal])
    \<and> in_flight c' ! unat i"
proof -
  have inv: "sys_inv s" "proto_inv H (abs_sys L s)" using sys_reach_simulates [OF assms(1,2)] by blast+
  then have "conn_inv (srv_conn (s_srv s))" by (simp add: sys_inv_def srv_inv_def)
  then show ?thesis
    using request_in_transit_is_free [OF inv assms(3,4)] assms(4,5) by (simp add: step_defs conn_inv_def)
qed


text \<open>
  C17: progress. From every reachable state, a request frame on its way belongs to a waiting call,
  and the system has a run in which that call's sender receives any output the handler allows for
  its payload, provided the response can be serialized and compressed.
\<close>

theorem request_can_be_answered:
  assumes "hl_lib_law L" and "sys_reach f L H (sys_new dflt clevel slevel etx) s" and "b \<in># c2s s"
    and "decode_client_message L b = Some (RPCRequest i internal)" and "H internal res"
    and "encode_server_message L (compression (srv_conn (s_srv s))) (RPCResponse i res) \<noteq> None"
  shows "\<exists>tx s'. (tx, internal) \<in> submitted s \<and> active_rpc_calls (s_client s) ! unat i = Some tx
    \<and> sys_reach f L H s s' \<and> (tx, res) \<in># answered s'"
proof -
  have inv: "sys_inv s" "proto_inv H (abs_sys L s)" using sys_reach_simulates [OF assms(1,2)] by blast+
  obtain N where "c2s s = add_mset b N" using assms(3) by (metis multi_member_split)
  then have "(i, Requested internal) \<in># p_tokens (abs_sys L s)" using assms(4) by (simp add: abs_sys_def)
  then obtain tx where tx: "active_rpc_calls (s_client s) ! unat i = Some tx" "(tx, internal) \<in> submitted s"
    using proto_invD(2) [OF inv(2), of i "Requested internal"] by (auto simp: abs_sys_def)
  obtain r where r: "encode_server_message L (compression (srv_conn (s_srv s))) (RPCResponse i res) = Some r"
    using assms(6) by blast
  show ?thesis
    using answer_run [OF assms(1) inv assms(3,4) tx(1) assms(5) r, of f] tx by fastforce
qed


section \<open>A run of the system\<close>

text \<open>An echo handler; the application has submitted one call and its request is on its way.\<close>

definition echo :: "bytes \<Rightarrow> bytes handler_result \<Rightarrow> bool" where
  "echo internal res \<longleftrightarrow> res = Inr internal"

definition keep_state :: "unit \<Rightarrow> state_update list \<Rightarrow> unit \<times> unit handler_result" where
  "keep_state s us = (s, Inr ())"

definition example_start :: "(nat, unit) sys" where
  "example_start = sys_new () 6 6 0"

definition example_sys :: "(nat, unit) sys" where
  "example_sys = example_start\<lparr>s_client := (client_new () 6)\<lparr>active_rpc_calls := (replicate 256 None)[0 := Some 7]\<rparr>,
     c2s := {#[1, 0, 42]#}, submitted := {(7, [42])}\<rparr>"

lemma example_sys_step: "sys_step keep_state demo_lib H example_start example_sys"
proof -
  have p: "position (\<lambda>x. x = None) (replicate 256 (None :: nat option)) = Some 0"
    by (simp add: numeral_eq_Suc)
  have c: "client_step keep_state demo_lib True (AppCall [42] 7) (s_client example_start) = Returns (Continue,
      (client_new () 6)\<lparr>active_rpc_calls := (replicate 256 None)[0 := Some 7]\<rparr>, [CSend [1, 0, 42]])"
    using p by (simp add: on_app_call_def example_start_def sys_new_def client_new_def)
  show ?thesis
    using sys_call [OF _ c, of H]
    by (simp add: example_sys_def example_start_def sys_new_def client_new_def srv_new_def)
qed

lemma example_sys_reach: "sys_reach keep_state demo_lib H (sys_new () 6 6 0) example_sys"
  using sys_more [OF sys_refl example_sys_step] by (simp add: example_start_def)

lemma example_sys_facts [simp]:
  "[1, 0, 42] \<in># c2s example_sys" "(7, [42]) \<in> submitted example_sys"
  "active_rpc_calls (s_client example_sys) ! 0 = Some 7" "answered example_sys = {#}"
  by (simp_all add: example_sys_def example_start_def sys_new_def)

theorem system_refines_protocol_witness:
  "proto_step echo (abs_sys demo_lib example_start) (abs_sys demo_lib example_sys)"
proof -
  have "sys_reach keep_state demo_lib echo (sys_new () 6 6 0) example_start"
    using sys_refl by (simp add: example_start_def)
  from system_refines_protocol [OF demo_lib_law this example_sys_step] show ?thesis by blast
qed

theorem rpc_answers_match_calls_witness:
  "\<exists>s. sys_reach keep_state demo_lib echo (sys_new () 6 6 0) s \<and> (7 :: nat, Inr [42]) \<in># answered s
    \<and> count (image_mset fst (answered s)) 7 = 1"
proof -
  have enc: "encode_server_message demo_lib (compression (srv_conn (s_srv example_sys))) (RPCResponse 0 (Inr [42]))
      = Some [1, 0, 0, 42]" by simp
  obtain s where s: "sys_reach keep_state demo_lib echo example_sys s"
      "answered s = add_mset (7, Inr [42]) (answered example_sys)" "submitted s = submitted example_sys"
    using answer_run [OF demo_lib_law _ _ _ _ _ _ enc, of echo "[1, 0, 42]" "[42]" 7 keep_state]
      sys_reach_simulates [OF demo_lib_law example_sys_reach] by (auto simp: echo_def)
  have r: "sys_reach keep_state demo_lib echo (sys_new () 6 6 0) s"
    using sys_reach_trans [OF s(1) example_sys_reach] .
  have "count (image_mset fst (answered s)) 7 \<le> 1"
    using rpc_answers_match_calls [OF demo_lib_law r, of 7 "[42]"] s(3) by simp
  with r s(2) show ?thesis by auto
qed

theorem client_request_never_ignored_witness:
  "\<exists>c'. conn_step demo_lib env_ok (FromClient (WsBinary [1, 0, 42])) (srv_conn (s_srv example_sys)) =
     Returns (c', [SpawnRpc 0 [42]]) \<and> in_flight c' ! 0"
  using client_request_never_ignored [OF demo_lib_law example_sys_reach,
      where b = "[1, 0, 42]" and i = 0 and internal = "[42]" and env = env_ok]
  by (simp add: env_ok_def)

theorem request_can_be_answered_witness:
  "\<exists>s'. sys_reach keep_state demo_lib echo example_sys s' \<and> (7, Inr [42]) \<in># answered s'"
  using request_can_be_answered [OF demo_lib_law example_sys_reach,
      where b = "[1, 0, 42]" and i = 0 and internal = "[42]" and res = "Inr [42]"]
  by (auto simp: echo_def)

end
