(* ===== verification/HL_Pubsub.thy ===== *)
theory HL_Pubsub
  imports HL_Connection HL_Switch HL_Client
begin

text \<open>
  Publish and subscribe across components: the handles the application's code holds
  (\<open>EventEmitter\<close>, \<open>HandlerSubscriptionManager\<close>), any number of connection handlers, and the event
  switch between them, joined by the channels the server creates. A connection is known by the
  number of its event channel.
\<close>

section \<open>The application's handles\<close>

text \<open>A channel is the list of what it holds; \<open>open\<close> says whether its receiver still exists.\<close>

definition emit :: "bool \<Rightarrow> topic \<Rightarrow> bytes \<Rightarrow> event list \<Rightarrow> event list" where
  "emit open t payload ch = (let ev = event_new t payload in if open then ch @ [ev] else ch)"

definition manager_add :: "bool \<Rightarrow> topic \<Rightarrow> proxied_notification list \<Rightarrow> proxied_notification list outcome" where
  "manager_add open t ch = (if open then Returns (ch @ [PxSubscribe t]) else Panics)"

definition manager_remove :: "bool \<Rightarrow> topic \<Rightarrow> proxied_notification list \<Rightarrow> proxied_notification list outcome" where
  "manager_remove open t ch = (if open then Returns (ch @ [PxUnsubscribe t]) else Panics)"

section \<open>Connections, switch and channels\<close>

record hub =
  hub_conns :: "event_sender \<Rightarrow> conn"
  hub_proxied :: "event_sender \<Rightarrow> proxied_notification list"
  hub_inbox :: "event_sender \<Rightarrow> event list"
  hub_queue :: "subscription_notification list"
  hub_events :: "event list"
  hub_switch :: event_switch

definition hub_new :: "(event_sender \<Rightarrow> nat) \<Rightarrow> hub" where
  "hub_new level = \<lparr>hub_conns = (\<lambda>k. conn_new (level k) k), hub_proxied = (\<lambda>k. []), hub_inbox = (\<lambda>k. []),
     hub_queue = [], hub_events = [], hub_switch = switch_new\<rparr>"

text \<open>The identifier a new subscription draws differs from those of the topic's subscriptions.\<close>

definition fresh_id :: "hub \<Rightarrow> proxied_notification \<Rightarrow> subscription_id \<Rightarrow> bool" where
  "fresh_id h n i \<longleftrightarrow> (\<forall>t k. n = PxSubscribe t \<longrightarrow> subscriptions (hub_conns h k) t \<noteq> Some i)"

text \<open>
  A handler asks for a topic or gives it up, anybody emits an event, a connection reads its
  channels or its socket, the switch takes an event, or a notification when no event is ready (its
  \<open>select!\<close> is biased). Connection loops never return, so every receiver stays alive.
\<close>

inductive hub_step ::
  "('enc, 'dec) hl_lib \<Rightarrow> (subscribers \<Rightarrow> subscribers) \<Rightarrow> hub \<Rightarrow> hub \<Rightarrow> bool"
  for L :: "('enc, 'dec) hl_lib" and iter :: "subscribers \<Rightarrow> subscribers" where
  hub_add: "manager_add True t (hub_proxied h k) = Returns ch \<Longrightarrow>
     hub_step L iter h (h\<lparr>hub_proxied := (hub_proxied h)(k := ch)\<rparr>)"
| hub_remove: "manager_remove True t (hub_proxied h k) = Returns ch \<Longrightarrow>
     hub_step L iter h (h\<lparr>hub_proxied := (hub_proxied h)(k := ch)\<rparr>)"
| hub_emit: "hub_step L iter h (h\<lparr>hub_events := emit True t payload (hub_events h)\<rparr>)"
| hub_subscription: "hub_proxied h k = n # ns \<Longrightarrow> fresh_id h n (rand_id env) \<Longrightarrow>
     conn_step L env (Proxied n) (hub_conns h k) = Returns (c', out) \<Longrightarrow>
     hub_step L iter h (h\<lparr>hub_conns := (hub_conns h)(k := c'), hub_proxied := (hub_proxied h)(k := ns),
       hub_queue := hub_queue h @ switch_sends out\<rparr>)"
| hub_deliver: "hub_inbox h k = ev # evs \<Longrightarrow>
     conn_step L env (EventIn ev) (hub_conns h k) = Returns (c', out) \<Longrightarrow>
     hub_step L iter h (h\<lparr>hub_conns := (hub_conns h)(k := c'), hub_inbox := (hub_inbox h)(k := evs)\<rparr>)"
| hub_other: "inp \<in> {RpcOut m, StateChanges us, FromClient w} \<Longrightarrow>
     conn_step L env inp (hub_conns h k) = Returns (c', out) \<Longrightarrow>
     hub_step L iter h (h\<lparr>hub_conns := (hub_conns h)(k := c')\<rparr>)"
| hub_event: "hub_events h = ev # evs \<Longrightarrow>
     switch_step iter (\<lambda>k. True) (SwEvent ev) (hub_switch h) = (sw', outs) \<Longrightarrow>
     hub_step L iter h (h\<lparr>hub_switch := sw', hub_events := evs,
       hub_inbox := (\<lambda>k. hub_inbox h k @ deliveries_to k outs)\<rparr>)"
| hub_notify: "hub_events h = [] \<Longrightarrow> hub_queue h = n # ns \<Longrightarrow>
     switch_step iter (\<lambda>k. True) (SwNotify n) (hub_switch h) = (sw', outs) \<Longrightarrow>
     hub_step L iter h (h\<lparr>hub_switch := sw', hub_queue := ns\<rparr>)"

definition hub_reach ::
  "('enc, 'dec) hl_lib \<Rightarrow> (subscribers \<Rightarrow> subscribers) \<Rightarrow> hub \<Rightarrow> hub \<Rightarrow> bool" where
  "hub_reach L iter = reachable (hub_step L iter)"

lemma hub_refl: "hub_reach L iter h h"
  by (simp add: hub_reach_def reachable_refl)

lemma hub_more: "hub_reach L iter h0 h \<Longrightarrow> hub_step L iter h h' \<Longrightarrow> hub_reach L iter h0 h'"
  unfolding hub_reach_def by (rule reachable_step)

section \<open>The registry and what connections believe\<close>

lemma registered_append: "registered t i v (ns @ ms) = registered t i (registered t i v ns) ms"
  by (induction t i v ns rule: registered.induct) auto

context topic_registry
begin

lemma pending_notify:
  "inv r \<Longrightarrow> registered t i (subs (notify n r) t i) ns = registered t i (subs r t i) (n # ns)"
  by (cases n) (auto simp: subs_subscribe subs_unsubscribe)

end

text \<open>
  The registry once the queued notifications are handled. The invariant says that it is exactly
  what the connections keep as their own subscriptions.
\<close>

definition pending :: "hub \<Rightarrow> topic \<Rightarrow> subscription_id \<rightharpoonup> event_sender" where
  "pending h t i = registered t i (subscriptions_of (hub_switch h) t i) (hub_queue h)"

definition hub_inv :: "hub \<Rightarrow> bool" where
  "hub_inv h \<longleftrightarrow> sw_inv (hub_switch h) \<and> (\<forall>k. events_tx (hub_conns h k) = k)
     \<and> (\<forall>t i k. pending h t i = Some k \<longleftrightarrow> subscriptions (hub_conns h k) t = Some i)"

lemma hub_inv_new: "hub_inv (hub_new level)"
  by (simp add: hub_inv_def hub_new_def pending_def conn_new_def) (simp add: switch_new_def subscriptions_of_def)

lemma conn_step_events_tx:
  assumes "conn_step L env inp c = Returns (c', out)"
  shows "events_tx c' = events_tx c"
proof (cases inp)
  case (RpcOut m)
  then show ?thesis using assms by (cases m) (auto simp: on_rpc_response_def and_then_Returns_iff)
next
  case (Proxied n)
  then show ?thesis using assms by (cases n) (auto simp: Let_def split: if_splits option.splits)
next
  case (FromClient w)
  then show ?thesis
    using assms by (cases w) (auto simp: on_client_message_def and_then_Returns_iff
        split: if_splits option.splits client_message.splits)
qed (use assms in auto)

lemma conn_step_subscriptions:
  assumes "conn_step L env inp c = Returns (c', out)" "\<nexists>n. inp = Proxied n"
  shows "subscriptions c' = subscriptions c"
proof (cases inp)
  case (RpcOut m)
  then show ?thesis using assms by (cases m) (auto simp: on_rpc_response_def and_then_Returns_iff)
next
  case (FromClient w)
  then show ?thesis
    using assms by (cases w) (auto simp: on_client_message_def and_then_Returns_iff
        split: if_splits option.splits client_message.splits)
qed (use assms in auto)

text \<open>The three things a subscription notification can do to a connection.\<close>

lemma subscription_step_cases:
  assumes "conn_step L env (Proxied n) c = Returns (c', out)"
  obtains (same) "subscriptions c' = subscriptions c" "switch_sends out = []"
  | (sub) t where "n = PxSubscribe t" "subscriptions c t = None"
      "subscriptions c' = (subscriptions c)(t \<mapsto> rand_id env)"
      "switch_sends out = [SnSubscribe t (rand_id env) (events_tx c)]"
  | (unsub) t i where "n = PxUnsubscribe t" "subscriptions c t = Some i"
      "subscriptions c' = (subscriptions c)(t := None)" "switch_sends out = [SnUnsubscribe t i]"
proof (cases n)
  case (PxSubscribe t)
  show thesis
  proof (cases "subscriptions c t = None \<and> switch_ok env")
    case True
    then show thesis using assms PxSubscribe by (intro sub) (auto simp: Let_def)
  next
    case False
    then show thesis using assms PxSubscribe
      by (intro same) (auto simp: Let_def fun_eq_iff split: if_splits)
  qed
next
  case (PxUnsubscribe t)
  show thesis
  proof (cases "subscriptions c t")
    case None
    then show thesis using assms PxUnsubscribe by (intro same) auto
  next
    case (Some i)
    show thesis
    proof (cases "switch_ok env")
      case True
      then show thesis using assms PxUnsubscribe Some by (intro unsub) (auto simp: Let_def)
    next
      case False
      then show thesis using assms PxUnsubscribe Some
        by (intro same) (auto simp: Let_def fun_eq_iff)
    qed
  qed
qed


lemma hub_invD:
  assumes "hub_inv h"
  shows "sw_inv (hub_switch h)" and "events_tx (hub_conns h k) = k"
    and "pending h t i = Some k \<longleftrightarrow> subscriptions (hub_conns h k) t = Some i"
  using assms by (simp_all add: hub_inv_def)

text \<open>A step that keeps the subscriptions on both sides keeps the invariant.\<close>

lemma hub_inv_same:
  assumes "hub_inv h" "sw_inv (hub_switch h')" "\<And>k. events_tx (hub_conns h' k) = k"
    "\<And>k. subscriptions (hub_conns h' k) = subscriptions (hub_conns h k)" "pending h' = pending h"
  shows "hub_inv h'"
  using assms by (simp add: hub_inv_def)

lemma hub_inv_subscription:
  assumes inv: "hub_inv h" and fresh: "fresh_id h n (rand_id env)"
    and step: "conn_step L env (Proxied n) (hub_conns h k) = Returns (c', out)"
    and h': "h' = h\<lparr>hub_conns := (hub_conns h)(k := c'), hub_proxied := p, hub_queue := hub_queue h @ switch_sends out\<rparr>"
  shows "hub_inv h'"
proof -
  have tx: "events_tx (hub_conns h' k') = k'" for k'
    using hub_invD(2) [OF inv] conn_step_events_tx [OF step] h' by simp
  have pend: "pending h' t i = registered t i (pending h t i) (switch_sends out)" for t i
    by (simp add: h' pending_def registered_append)
  have sw: "sw_inv (hub_switch h')" using hub_invD(1) [OF inv] h' by simp
  have conns: "hub_conns h' = (hub_conns h)(k := c')" by (simp add: h')
  from step show ?thesis
  proof (cases rule: subscription_step_cases)
    case same
    then show ?thesis using conns pend by (intro hub_inv_same [OF inv sw tx]) (auto simp: fun_eq_iff)
  next
    case (sub t)
    have new: "subscriptions (hub_conns h k') t \<noteq> Some (rand_id env)" for k'
      using fresh sub(1) by (simp add: fresh_id_def)
    show ?thesis
      unfolding hub_inv_def
      using sw tx sub(2-) new hub_invD(2) [OF inv, of k] hub_invD(3) [OF inv]
      by (auto simp: pend conns)
  next
    case (unsub t i)
    have "subscriptions (hub_conns h k') t \<noteq> Some i" if "k' \<noteq> k" for k'
      using hub_invD(3) [OF inv, of t i] unsub(2) that by (metis option.inject)
    then show ?thesis
      unfolding hub_inv_def
      using sw tx unsub(2-) hub_invD(3) [OF inv] by (auto simp: pend conns)
  qed
qed

lemma hub_inv_conn:
  assumes inv: "hub_inv h" and step: "conn_step L env inp (hub_conns h k) = Returns (c', out)" "\<nexists>n. inp = Proxied n"
    and h': "hub_conns h' = (hub_conns h)(k := c')" "hub_switch h' = hub_switch h" "hub_queue h' = hub_queue h"
  shows "hub_inv h'"
proof (rule hub_inv_same [OF inv])
  show "sw_inv (hub_switch h')" using hub_invD(1) [OF inv] h' by simp
  show "events_tx (hub_conns h' k') = k'" for k'
    using hub_invD(2) [OF inv, of k'] conn_step_events_tx [OF step(1)] h' by auto
  show "subscriptions (hub_conns h' k') = subscriptions (hub_conns h k')" for k'
    using conn_step_subscriptions [OF step] h' by simp
  show "pending h' = pending h" using h' by (simp add: pending_def fun_eq_iff)
qed

lemma hub_step_inv:
  assumes "iter_law iter"
  shows "hub_step L iter h h' \<Longrightarrow> hub_inv h \<Longrightarrow> hub_inv h'"
proof (induction rule: hub_step.induct)
  case (hub_subscription h k n ns env c' out)
  show ?case by (rule hub_inv_subscription [OF hub_subscription.prems hub_subscription.hyps(2,3) refl])
next
  case (hub_deliver h k ev evs env c' out)
  show ?case by (rule hub_inv_conn [OF hub_deliver.prems hub_deliver.hyps(2)]) simp_all
next
  case (hub_other inp m us w env h k c' out)
  have "\<nexists>n. inp = Proxied n" using hub_other.hyps(1) by auto
  then show ?case by (rule hub_inv_conn [OF hub_other.prems hub_other.hyps(2)]) simp_all
next
  case (hub_event h ev evs sw' outs)
  then have "sw' = hub_switch h"
    using switch_event_all_alive [OF assms hub_invD(1) [OF hub_event.prems]] by (auto simp: split_beta)
  then show ?case
    using hub_invD(1,2) [OF hub_event.prems]
    by (intro hub_inv_same [OF hub_event.prems]) (auto simp: pending_def fun_eq_iff)
next
  case (hub_notify h n ns sw' outs)
  have sw: "sw_inv (hub_switch h)" by (rule hub_invD(1) [OF hub_notify.prems])
  have sw': "sw' = fst (switch_notify n (hub_switch h))" using hub_notify.hyps(3) by (auto simp: split_beta)
  then have "registered t i (subscriptions_of sw' t i) ns = pending h t i" for t i
    using switch_registry.pending_notify [OF sw, of t i n ns] hub_notify.hyps(2) by (simp add: pending_def)
  then show ?case
    using hub_invD(2) [OF hub_notify.prems] switch_notify_inv [OF sw, of n] sw'
    by (intro hub_inv_same [OF hub_notify.prems]) (auto simp: pending_def fun_eq_iff)
qed (auto simp: hub_inv_def pending_def)

interpretation hub_system: invariant_system "\<lambda>h h'. iter_law iter \<and> hub_step L iter h h'" hub_inv for iter L
  by unfold_locales (blast intro: hub_step_inv)

lemma hub_reach_inv:
  assumes "iter_law iter" "hub_reach L iter (hub_new level) h"
  shows "hub_inv h"
proof -
  have "reachable (\<lambda>h h'. iter_law iter \<and> hub_step L iter h h') (hub_new level) h"
    using assms by (simp add: hub_reach_def)
  then show ?thesis by (rule hub_system.inv_reachable) (rule hub_inv_new)
qed

text \<open>With nothing queued, a connection owns one subscription per topic it is subscribed to.\<close>

lemma owned_when_drained:
  assumes "hub_inv h" "hub_queue h = []"
  shows "owned_by (hub_switch h) k t = (case subscriptions (hub_conns h k) t of None \<Rightarrow> {} | Some i \<Rightarrow> {i})"
  using hub_invD(3) [OF assms(1), of t _ k] assms(2)
  by (auto simp: owned_by_def pending_def split: option.splits)

text \<open>With nothing queued, an event goes once to each connection whose own table has its topic.\<close>

lemma event_deliveries:
  assumes "iter_law iter" and "hub_reach L iter (hub_new level) h" and "hub_queue h = []"
    and "switch_step iter (\<lambda>k. True) (SwEvent ev) (hub_switch h) = (sw', outs)"
  shows "deliveries_to k outs = (if subscriptions (hub_conns h k) (ev_topic ev) = None then [] else [ev])"
proof -
  have inv: "hub_inv h" by (rule hub_reach_inv [OF assms(1,2)])
  have "deliveries_to k outs = replicate (card (owned_by (hub_switch h) k (ev_topic ev))) ev"
    using switch_event_deliveries [OF assms(1) hub_invD(1) [OF inv], of "\<lambda>k. True" k ev] assms(4) by simp
  then show ?thesis
    using owned_when_drained [OF inv assms(3)] by (auto split: option.splits)
qed

section \<open>Properties\<close>

text \<open>
  C4: the switch and the connections agree. In every reachable state the registry, once the queued
  notifications are handled, holds for each topic exactly the subscriptions the connections keep
  themselves, each under the identifier and the event channel of its connection, although requests
  of many connections interleave and sends to the switch may fail. As everywhere below, a random
  identifier a connection draws is new for its topic (\<open>fresh_id\<close>).
\<close>

theorem registry_matches_connections:
  assumes "iter_law iter" and "hub_reach L iter (hub_new level) h"
  shows "subscriptions_of (fold (\<lambda>n sw. fst (switch_notify n sw)) (hub_queue h) (hub_switch h)) t i = Some k \<longleftrightarrow>
    subscriptions (hub_conns h k) t = Some i"
  using hub_invD [OF hub_reach_inv [OF assms]] switch_registry.subs_fold by (simp add: pending_def)

text \<open>
  C5: an event reaches exactly the connections subscribed to its topic, each once: when no
  notification is queued, handling an event appends it once to the channel of every connection
  whose own table has the topic, and to no other channel.
\<close>

theorem event_reaches_subscribed_connections:
  assumes "iter_law iter" and "hub_reach L iter (hub_new level) h" and "hub_queue h = []"
    and "switch_step iter (\<lambda>k. True) (SwEvent ev) (hub_switch h) = (sw', outs)"
  shows "deliveries_to k outs = (if subscriptions (hub_conns h k) (ev_topic ev) = None then [] else [ev])"
  by (rule event_deliveries [OF assms])

section \<open>A run\<close>

text \<open>The handler of connection 3 subscribes to a topic, and the switch has registered it.\<close>

definition example_conn :: conn where
  "example_conn = (conn_new 6 3)\<lparr>subscriptions := [example_topic \<mapsto> [9]]\<rparr>"

definition example_hub :: hub where
  "example_hub = (hub_new (\<lambda>k. 6))\<lparr>hub_conns := (\<lambda>k. conn_new 6 k)(3 := example_conn),
     hub_switch := \<lparr>sw_subs = [example_topic \<mapsto> [([9], 3)]]\<rparr>\<rparr>"

lemma example_hub_reach: "hub_reach demo_lib rev (hub_new (\<lambda>k. 6)) example_hub"
proof -
  define h0 where "h0 = hub_new (\<lambda>k. 6)"
  define h1 where "h1 = h0\<lparr>hub_proxied := (\<lambda>k. [])(3 := [PxSubscribe example_topic])\<rparr>"
  define h2 where "h2 = h0\<lparr>hub_conns := (\<lambda>k. conn_new 6 k)(3 := example_conn),
     hub_queue := [SnSubscribe example_topic [9] 3]\<rparr>"
  have 1: "hub_step demo_lib rev h0 h1"
    using hub_add [of example_topic h0 3 "[PxSubscribe example_topic]" demo_lib rev]
    by (simp add: h0_def h1_def hub_new_def manager_add_def)
  have "conn_step demo_lib env_ok (Proxied (PxSubscribe example_topic)) (hub_conns h1 3) =
      Returns (example_conn, [SwitchSend (SnSubscribe example_topic [9] 3)])"
    by (simp add: h0_def h1_def hub_new_def env_ok_def example_conn_def conn_new_def Let_def)
  moreover have "fresh_id h1 (PxSubscribe example_topic) (rand_id env_ok)"
    by (simp add: h0_def h1_def fresh_id_def hub_new_def conn_new_def)
  ultimately have 2: "hub_step demo_lib rev h1 h2"
    using hub_subscription [of h1 3 "PxSubscribe example_topic" "[]" env_ok demo_lib example_conn
        "[SwitchSend (SnSubscribe example_topic [9] 3)]" rev]
    by (simp add: h0_def h1_def h2_def hub_new_def fun_upd_idem)
  have "switch_step rev (\<lambda>k. True) (SwNotify (SnSubscribe example_topic [9] 3)) (hub_switch h2) =
      (\<lparr>sw_subs = [example_topic \<mapsto> [([9], 3)]]\<rparr>, [SwTopic (Created example_topic)])"
    by (simp add: h0_def h2_def hub_new_def switch_new_def)
  then have 3: "hub_step demo_lib rev h2 example_hub"
    using hub_notify [of h2 "SnSubscribe example_topic [9] 3" "[]" rev _ _ demo_lib]
    by (simp add: h0_def h2_def hub_new_def example_hub_def)
  show ?thesis
    using hub_more [OF hub_more [OF hub_more [OF hub_refl 1] 2] 3] by (simp add: h0_def)
qed

theorem registry_matches_connections_witness:
  "hub_queue example_hub = [] \<and> subscriptions_of (hub_switch example_hub) example_topic [9] = Some 3
   \<and> subscriptions (hub_conns example_hub 3) example_topic = Some [9]"
  using registry_matches_connections [OF iter_law_rev example_hub_reach, of example_topic "[9]" 3]
  by (simp add: example_hub_def example_conn_def hub_new_def)

theorem event_reaches_subscribed_connections_witness:
  "deliveries_to 3 (snd (switch_step rev (\<lambda>k. True) (SwEvent example_event) (hub_switch example_hub))) = [example_event]
   \<and> deliveries_to 4 (snd (switch_step rev (\<lambda>k. True) (SwEvent example_event) (hub_switch example_hub))) = []"
proof -
  have "hub_queue example_hub = []" by (simp add: example_hub_def hub_new_def)
  note ev = event_reaches_subscribed_connections [OF iter_law_rev example_hub_reach this, of example_event]
  obtain sw' outs where s: "switch_step rev (\<lambda>k. True) (SwEvent example_event) (hub_switch example_hub) = (sw', outs)"
    by fastforce
  show ?thesis
    using ev [OF s, of 3] ev [OF s, of 4] s
    by (simp add: example_hub_def example_conn_def example_event_def conn_new_def)
qed

end
