(* ===== verification/HL_Handshake.thy ===== *)
theory HL_Handshake
  imports HL_Decimal
begin

text \<open>
  The protocol handshake: the upgrade request \<open>Client::connect\<close> builds (\<open>src/client.rs\<close>), the
  callback of the server's connection handler that answers it (\<open>src/server.rs\<close>), and the client's
  check of the answer. The \<open>http\<close> crate's header values and header maps are a parameter.
\<close>

section \<open>Header values and maps\<close>

record ('hv, 'hm) http =
  hv_parse :: "string \<Rightarrow> 'hv option"
  hv_of_u32 :: "nat \<Rightarrow> 'hv"
  hv_to_str :: "'hv \<Rightarrow> string option"
  hdr_empty :: 'hm
  hdr_get :: "'hm \<Rightarrow> string \<Rightarrow> 'hv option"
  hdr_append :: "'hm \<Rightarrow> string \<Rightarrow> 'hv \<Rightarrow> 'hm"

definition header_names :: "string list" where
  "header_names = [''Host'', ''Connection'', ''Upgrade'', ''Sec-WebSocket-Version'', ''Sec-WebSocket-Key'',
     ''Sec-WebSocket-Protocol'', ''X-HL-Compress'']"

definition visible_ascii :: "string \<Rightarrow> bool" where
  "visible_ascii s \<longleftrightarrow> (\<forall>c \<in> set s. 32 \<le> (of_char c :: nat) \<and> (of_char c :: nat) < 127)"

text \<open>
  What the crate documents: visible ASCII text makes a header value that reads back as the text, a
  number reads back as its decimal digits; a map returns the first value appended under a name.
\<close>

definition http_law :: "('hv, 'hm) http \<Rightarrow> bool" where
  [lib_laws]: "http_law P \<longleftrightarrow>
     (\<forall>s. visible_ascii s \<longrightarrow> (\<exists>v. hv_parse P s = Some v \<and> hv_to_str P v = Some s))
   \<and> (\<forall>n. hv_to_str P (hv_of_u32 P n) = Some (show_nat n))
   \<and> (\<forall>n \<in> set header_names. hdr_get P (hdr_empty P) n = None)
   \<and> (\<forall>m v. \<forall>n \<in> set header_names. \<forall>n' \<in> set header_names.
        hdr_get P (hdr_append P m n v) n' =
          (if n' = n then Some (case hdr_get P m n of None \<Rightarrow> v | Some v0 \<Rightarrow> v0) else hdr_get P m n'))"

section \<open>Version strings\<close>

text \<open>\<open>format!("hl/{}", major).parse().unwrap()\<close>\<close>

definition hl_version_string :: "('hv, 'hm) http \<Rightarrow> nat \<Rightarrow> 'hv outcome" where
  "hl_version_string P major = unwrap (hv_parse P (''hl/'' @ show_nat major))"

section \<open>The client's request\<close>

record 'hv client_hello =
  hello_host :: string
  hello_key :: string
  hello_version :: 'hv
  hello_level :: nat

text \<open>
  The builder keeps the first error of a header whose value does not parse, and \<open>body(())\<close> returns
  it to the \<open>unwrap\<close>; \<open>uri_ok\<close> says which URIs the crate accepts.
\<close>

definition with_header ::
  "('hv, 'hm) http \<Rightarrow> string \<Rightarrow> 'hv option \<Rightarrow> 'hm option \<Rightarrow> 'hm option" where
  "with_header P name v m = Option.bind m (\<lambda>hm. map_option (hdr_append P hm name) v)"

definition client_request ::
  "('hv, 'hm) http \<Rightarrow> (string \<Rightarrow> bool) \<Rightarrow> 'hv client_hello \<Rightarrow> 'hm outcome" where
  "client_request P uri_ok c = unwrap (
     Option.bind
       (with_header P ''X-HL-Compress'' (Some (hv_of_u32 P (hello_level c)))
       (with_header P ''Sec-WebSocket-Protocol'' (Some (hello_version c))
       (with_header P ''Sec-WebSocket-Key'' (hv_parse P (hello_key c))
       (with_header P ''Sec-WebSocket-Version'' (hv_parse P ''13'')
       (with_header P ''Upgrade'' (hv_parse P ''websocket'')
       (with_header P ''Connection'' (hv_parse P ''Upgrade'')
       (with_header P ''Host'' (hv_parse P (hello_host c)) (Some (hdr_empty P)))))))))
     (\<lambda>hm. if uri_ok (''wss://'' @ hello_host c @ ''/'') then Some hm else None))"

section \<open>The server's callback\<close>

definition negotiate_level :: "('hv, 'hm) http \<Rightarrow> nat \<Rightarrow> 'hm \<Rightarrow> nat" where
  "negotiate_level P dflt req =
     unwrap_or
       (option_filter (\<lambda>c. c \<le> 9)
         (Option.bind (Option.bind (hdr_get P req ''X-HL-Compress'') (\<lambda>c. hv_to_str P c))
           (\<lambda>c. parse_uint 255 c)))
       dflt"

text \<open>
  The response (status code and headers) and the compression level. The log line of the first
  branch unwraps the header's text; the callback returns \<open>Ok\<close> in all branches.
\<close>

definition server_callback ::
  "('hv, 'hm) http \<Rightarrow> nat \<Rightarrow> 'hv \<Rightarrow> 'hm \<Rightarrow> nat \<times> 'hm \<Rightarrow> ((nat \<times> 'hm) \<times> nat) outcome" where
  "server_callback P dflt version req response =
     (let (status, headers) = response in
      and_then
        (case hdr_get P req ''Sec-WebSocket-Protocol'' of
           Some req_version \<Rightarrow>
             (if req_version = version
              then and_then (unwrap (hv_to_str P req_version)) (\<lambda>_.
                     Returns (status, hdr_append P headers ''Sec-WebSocket-Protocol'' version))
              else Returns (400, headers))
         | None \<Rightarrow> Returns (400, headers))
        (\<lambda>(status', headers').
          let compression = negotiate_level P dflt req
          in Returns ((status', hdr_append P headers' ''X-HL-Compress'' (hv_of_u32 P compression)), compression)))"

section \<open>The client's check\<close>

datatype 'e connect_error = Transport 'e | HandshakeIncomplete

text \<open>
  \<open>res\<close> is what the connect call gives: its own error or the response headers. An accepted
  response carries the level the server announced, which is only logged.
\<close>

definition client_check ::
  "('hv, 'hm) http \<Rightarrow> 'hv \<Rightarrow> 'e + 'hm \<Rightarrow> ('e connect_error + nat option) outcome" where
  "client_check P version res =
     (case res of
        Inl e \<Rightarrow> Returns (Inl (Transport e))
      | Inr headers \<Rightarrow>
          (case hdr_get P headers ''Sec-WebSocket-Protocol'' of
             Some protocol \<Rightarrow>
               (if protocol = version
                then (let compression =
                        option_filter (\<lambda>c. c \<le> 9)
                          (Option.bind (Option.bind (hdr_get P headers ''X-HL-Compress'') (\<lambda>h. hv_to_str P h))
                            (\<lambda>n. parse_uint 4294967295 n))
                      in and_then (unwrap (hv_to_str P protocol)) (\<lambda>_. Returns (Inr compression)))
                else Returns (Inl HandshakeIncomplete))
           | None \<Rightarrow> Returns (Inl HandshakeIncomplete)))"

section \<open>Facts on the pieces\<close>

lemma http_lawD:
  assumes "http_law P"
  shows "visible_ascii s \<Longrightarrow> \<exists>v. hv_parse P s = Some v \<and> hv_to_str P v = Some s"
    and "hv_to_str P (hv_of_u32 P n) = Some (show_nat n)"
    and "name \<in> set header_names \<Longrightarrow> hdr_get P (hdr_empty P) name = None"
    and "name \<in> set header_names \<Longrightarrow> name' \<in> set header_names \<Longrightarrow>
      hdr_get P (hdr_append P m name v) name' =
        (if name' = name then Some (case hdr_get P m name of None \<Rightarrow> v | Some v0 \<Rightarrow> v0) else hdr_get P m name')"
  using assms unfolding http_law_def by blast+

lemma visible_show_nat: "visible_ascii (show_nat n)"
  by (auto simp: visible_ascii_def dest!: set_show_nat simp: of_char_digit)

lemma hl_version_string_eq:
  assumes "http_law P"
  shows "\<exists>v. hl_version_string P major = Returns v \<and> hv_to_str P v = Some (''hl/'' @ show_nat major)"
proof -
  have "visible_ascii (''hl/'' @ show_nat major)"
    using visible_show_nat [of major] by (auto simp: visible_ascii_def)
  then show ?thesis using http_lawD(1) [OF assms] by (fastforce simp: hl_version_string_def)
qed

lemma version_strings_eq_iff:
  assumes "http_law P" "hl_version_string P a = Returns v" "hl_version_string P b = Returns w"
  shows "v = w \<longleftrightarrow> a = b"
proof -
  have "hv_to_str P v = Some (''hl/'' @ show_nat a)" "hv_to_str P w = Some (''hl/'' @ show_nat b)"
    using hl_version_string_eq [OF assms(1)] assms(2,3) by (metis outcome.inject)+
  then show ?thesis using assms(2,3) by (auto simp: show_nat_inject)
qed

lemma negotiate_level_le: "dflt \<le> 9 \<Longrightarrow> negotiate_level P dflt req \<le> 9"
  by (auto simp: negotiate_level_def option_filter_def split: option.splits)

lemma with_header_Some:
  "with_header P name v m = Some hm' \<longleftrightarrow> (\<exists>hm x. m = Some hm \<and> v = Some x \<and> hm' = hdr_append P hm name x)"
  by (auto simp: with_header_def bind_eq_Some_conv)

lemma client_request_headers:
  assumes "http_law P" "client_request P uri_ok c = Returns req"
  shows "hdr_get P req ''Sec-WebSocket-Protocol'' = Some (hello_version c)"
    and "hdr_get P req ''X-HL-Compress'' = Some (hv_of_u32 P (hello_level c))"
  using assms(2)
  by (auto simp: client_request_def bind_eq_Some_conv with_header_Some http_lawD(3,4) [OF assms(1)]
      header_names_def split: if_splits)

lemma negotiate_level_request:
  assumes "http_law P" "hdr_get P req ''X-HL-Compress'' = Some (hv_of_u32 P level)"
  shows "negotiate_level P dflt req = (if level \<le> 9 then level else dflt)"
  using assms(2) by (simp add: negotiate_level_def http_lawD(2) [OF assms(1)] parse_uint_show_nat)

text \<open>The response's two headers after the callback, over a response that has neither.\<close>

lemma server_callback_headers:
  assumes law: "http_law P" and v: "hv_to_str P version \<noteq> None"
    and base: "hdr_get P base ''Sec-WebSocket-Protocol'' = None" "hdr_get P base ''X-HL-Compress'' = None"
  obtains headers where
    "server_callback P dflt version req (status, base) =
       Returns ((if hdr_get P req ''Sec-WebSocket-Protocol'' = Some version then status else 400, headers),
         negotiate_level P dflt req)"
    "hdr_get P headers ''Sec-WebSocket-Protocol'' =
       (if hdr_get P req ''Sec-WebSocket-Protocol'' = Some version then Some version else None)"
    "hdr_get P headers ''X-HL-Compress'' = Some (hv_of_u32 P (negotiate_level P dflt req))"
proof (cases "hdr_get P req ''Sec-WebSocket-Protocol'' = Some version")
  case True
  let ?h = "hdr_append P (hdr_append P base ''Sec-WebSocket-Protocol'' version) ''X-HL-Compress''
        (hv_of_u32 P (negotiate_level P dflt req))"
  have "server_callback P dflt version req (status, base) = Returns ((status, ?h), negotiate_level P dflt req)"
    using True v by (auto simp: server_callback_def Let_def)
  with True show thesis
    using base by (intro that [of ?h]) (simp_all add: http_lawD(4) [OF law] header_names_def)
next
  case False
  let ?h = "hdr_append P base ''X-HL-Compress'' (hv_of_u32 P (negotiate_level P dflt req))"
  have "server_callback P dflt version req (status, base) = Returns ((400, ?h), negotiate_level P dflt req)"
    using False by (auto simp: server_callback_def Let_def split: option.split)
  with False show thesis
    using base by (intro that [of ?h]) (simp_all add: http_lawD(4) [OF law] header_names_def)
qed

section \<open>Properties\<close>

text \<open>
  C13: negotiation between a client and a server. The client's check accepts the answer exactly when
  both run the same major version; the response is then the one it was, and otherwise has status
  400 and no version; the server's compression level is the client's when it is at most 9 and the
  default otherwise, and an accepted answer announces that level.
\<close>

theorem handshake_negotiation:
  assumes "http_law P" and "dflt \<le> 9"
    and "hl_version_string P client_major = Returns vc" and "hl_version_string P server_major = Returns vs"
    and "client_request P uri_ok \<lparr>hello_host = host, hello_key = key, hello_version = vc, hello_level = level\<rparr> = Returns req"
    and "hdr_get P base ''Sec-WebSocket-Protocol'' = None" and "hdr_get P base ''X-HL-Compress'' = None"
  shows "\<exists>headers agreed. agreed = (if level \<le> 9 then level else dflt)
    \<and> server_callback P dflt vs req (101, base) =
        Returns ((if client_major = server_major then 101 else 400, headers), agreed)
    \<and> client_check P vc (Inr headers) =
        Returns (if client_major = server_major then Inr (Some agreed) else Inl HandshakeIncomplete)"
proof -
  have vs: "hv_to_str P vs \<noteq> None" and vc: "hv_to_str P vc \<noteq> None"
    using hl_version_string_eq [OF assms(1)] assms(3,4) by (metis option.distinct(1) outcome.inject)+
  note req = client_request_headers [OF assms(1,5), simplified]
  have same: "vc = vs \<longleftrightarrow> client_major = server_major" by (rule version_strings_eq_iff [OF assms(1,3,4)])
  have level: "negotiate_level P dflt req = (if level \<le> 9 then level else dflt)"
    by (rule negotiate_level_request [OF assms(1) req(2)])
  obtain headers where cb: "server_callback P dflt vs req (101, base) =
       Returns ((if vc = vs then 101 else 400, headers), negotiate_level P dflt req)"
    and h: "hdr_get P headers ''Sec-WebSocket-Protocol'' = (if vc = vs then Some vs else None)"
      "hdr_get P headers ''X-HL-Compress'' = Some (hv_of_u32 P (negotiate_level P dflt req))"
    using server_callback_headers [OF assms(1) vs assms(6,7), of dflt req 101] req(1) by auto
  have "client_check P vc (Inr headers) =
      Returns (if vc = vs then Inr (Some (negotiate_level P dflt req)) else Inl HandshakeIncomplete)"
    using h vs negotiate_level_le [OF assms(2), of P req]
    by (auto simp: client_check_def http_lawD(2) [OF assms(1)] parse_uint_show_nat)
  with cb show ?thesis unfolding level same by blast
qed

text \<open>
  C29: the callback against any client. Whatever headers a request has, the callback does not panic
  and returns a response: a missing or different version only changes the status to 400, and the
  connection goes on with a compression level of at most 9.
\<close>

theorem server_callback_any_request:
  assumes "http_law P" and "dflt \<le> 9" and "hl_version_string P major = Returns version"
    and "hdr_get P base ''Sec-WebSocket-Protocol'' = None" and "hdr_get P base ''X-HL-Compress'' = None"
  shows "\<exists>headers level. server_callback P dflt version req (status, base) =
      Returns ((if hdr_get P req ''Sec-WebSocket-Protocol'' = Some version then status else 400, headers), level)
    \<and> level \<le> 9 \<and> hdr_get P headers ''X-HL-Compress'' = Some (hv_of_u32 P level)"
proof -
  have "hv_to_str P version \<noteq> None"
    using hl_version_string_eq [OF assms(1), of major] assms(3) by auto
  from server_callback_headers [OF assms(1) this assms(4,5), of dflt req status] show ?thesis
    using negotiate_level_le [OF assms(2), of P req] by metis
qed

section \<open>An instance\<close>

text \<open>Header values as their text, and maps as the list of what was appended.\<close>

definition demo_http :: "(string, (string \<times> string) list) http" where
  "demo_http = \<lparr>hv_parse = Some, hv_of_u32 = show_nat, hv_to_str = Some, hdr_empty = [],
     hdr_get = map_of, hdr_append = (\<lambda>m n v. m @ [(n, v)])\<rparr>"

lemma map_of_snoc:
  "map_of (m @ [(n, v)]) n' = (if n' = n then Some (case map_of m n of None \<Rightarrow> v | Some v0 \<Rightarrow> v0) else map_of m n')"
  by (simp add: map_add_def split: option.split)

lemma demo_http_law: "http_law demo_http"
  by (simp add: http_law_def demo_http_def map_of_snoc del: map_of_append)

lemma show_digits [simp]: "show_nat 2 = ''2''" "show_nat 3 = ''3''" "show_nat 6 = ''6''"
  by (simp_all add: show_nat.simps digit_char_def char_of_def bit_0)

theorem handshake_negotiation_witness:
  "\<exists>headers. server_callback demo_http 6 ''hl/3''
      [(''Host'', ''h''), (''Connection'', ''Upgrade''), (''Upgrade'', ''websocket''), (''Sec-WebSocket-Version'', ''13''),
       (''Sec-WebSocket-Key'', ''k''), (''Sec-WebSocket-Protocol'', ''hl/2''), (''X-HL-Compress'', ''3'')] (101, [])
     = Returns ((400, headers), 3)
   \<and> client_check demo_http ''hl/2'' (Inr headers :: unit + _) = Returns (Inl HandshakeIncomplete)"
proof -
  have v: "hl_version_string demo_http 2 = Returns ''hl/2''" "hl_version_string demo_http 3 = Returns ''hl/3''"
    by (simp_all add: hl_version_string_def demo_http_def)
  have r: "client_request demo_http (\<lambda>u. True) \<lparr>hello_host = ''h'', hello_key = ''k'', hello_version = ''hl/2'', hello_level = 3\<rparr>
    = Returns [(''Host'', ''h''), (''Connection'', ''Upgrade''), (''Upgrade'', ''websocket''), (''Sec-WebSocket-Version'', ''13''),
       (''Sec-WebSocket-Key'', ''k''), (''Sec-WebSocket-Protocol'', ''hl/2''), (''X-HL-Compress'', ''3'')]"
    by (simp add: client_request_def with_header_def demo_http_def)
  have b: "hdr_get demo_http [] ''Sec-WebSocket-Protocol'' = None" "hdr_get demo_http [] ''X-HL-Compress'' = None"
    by (simp_all add: demo_http_def)
  show ?thesis
    using handshake_negotiation [OF demo_http_law _ v r b, of 6] by auto
qed

theorem server_callback_any_request_witness:
  "\<exists>headers level. server_callback demo_http 6 ''hl/2'' [(''X-HL-Compress'', ''77'')] (101, []) =
      Returns ((400, headers), level) \<and> level \<le> 9"
proof -
  have v: "hl_version_string demo_http 2 = Returns ''hl/2''"
    by (simp add: hl_version_string_def demo_http_def)
  show ?thesis
    using server_callback_any_request [OF demo_http_law _ v, of 6 "[]" "[(''X-HL-Compress'', ''77'')]" 101]
    by (auto simp: demo_http_def)
qed

end
