(* ===== verification/HL_Server.thy ===== *)
theory HL_Server
  imports HL_Handshake HL_Connection HL_Switch
begin

text \<open>
  The server around its connections (\<open>src/server.rs\<close>): \<open>ServerConfig::new\<close>, \<open>Server::new\<close>, the
  handles it gives to the application, the accept loop of \<open>run\<close>, and what
  \<open>spawn_connection_handler\<close> does before the connection's loop starts. Channels are known by numbers.
\<close>

section \<open>Configuration and construction\<close>

record 'tls server_config =
  address :: string
  version_major :: nat
  tls :: 'tls

text \<open>\<open>major_of\<close> is the version crate's parser on the crate's own version string.\<close>

definition server_config_new ::
  "(string \<Rightarrow> nat option) \<Rightarrow> string \<Rightarrow> string \<Rightarrow> 'tls \<Rightarrow> 'tls server_config outcome" where
  "server_config_new major_of hl_version host tls_cfg =
     and_then (unwrap (major_of hl_version)) (\<lambda>major.
       Returns \<lparr>address = host, version_major = major, tls = tls_cfg\<rparr>)"

record ('tls, 'hv) server =
  sv_config :: "'tls server_config"
  sv_version :: 'hv
  sv_event_rx :: "nat option"
  sv_event_tx :: nat
  sv_topic_rx :: "nat option"
  sv_topic_tx :: nat

definition server_new ::
  "('hv, 'hm) http \<Rightarrow> nat \<Rightarrow> nat \<Rightarrow> 'tls server_config \<Rightarrow> ('tls, 'hv) server outcome" where
  "server_new P event_chan topic_chan config =
     and_then (hl_version_string P (version_major config)) (\<lambda>v.
       Returns \<lparr>sv_config = config, sv_version = v, sv_event_rx = Some event_chan, sv_event_tx = event_chan,
         sv_topic_rx = Some topic_chan, sv_topic_tx = topic_chan\<rparr>)"

section \<open>Handles for the application\<close>

definition get_event_emitter :: "('tls, 'hv) server \<Rightarrow> nat" where
  "get_event_emitter s = sv_event_tx s"

definition get_topic_notifier :: "('tls, 'hv) server \<Rightarrow> nat option \<times> ('tls, 'hv) server" where
  "get_topic_notifier s = (sv_topic_rx s, s\<lparr>sv_topic_rx := None\<rparr>)"

text \<open>An application that asks for the notifier several times, and what it gets each time.\<close>

fun take_notifiers :: "nat \<Rightarrow> ('tls, 'hv) server \<Rightarrow> nat option list \<times> ('tls, 'hv) server" where
  "take_notifiers 0 s = ([], s)"
| "take_notifiers (Suc n) s =
     (let (r, s') = get_topic_notifier s; (rs, s'') = take_notifiers n s' in (r # rs, s''))"

lemma take_notifiers_none: "sv_topic_rx s = None \<Longrightarrow> take_notifiers n s = (replicate n None, s)"
proof (induction n)
  case (Suc n)
  then have e: "s\<lparr>sv_topic_rx := None\<rparr> = s" by simp
  show ?case using Suc by (simp add: get_topic_notifier_def e)
qed simp

lemma take_notifiers_Suc:
  "take_notifiers (Suc n) s = (sv_topic_rx s # replicate n None, s\<lparr>sv_topic_rx := None\<rparr>)"
  by (simp add: get_topic_notifier_def take_notifiers_none)

section \<open>A connection before its loop\<close>

text \<open>
  TLS may fail; the WebSocket upgrade may fail before the callback (\<open>req = None\<close>) or after it, as
  tungstenite decides from the callback's response (\<open>accepts\<close>). Otherwise the loop's state is set up
  with the negotiated level. \<open>None\<close>: the task returns without a loop.
\<close>

definition conn_setup ::
  "('hv, 'hm) http \<Rightarrow> nat \<Rightarrow> 'hv \<Rightarrow> bool \<Rightarrow> (nat \<times> 'hm \<Rightarrow> bool) \<Rightarrow> 'hm option \<Rightarrow> 'hm \<Rightarrow> event_sender \<Rightarrow> conn option outcome" where
  "conn_setup P dflt version tls_ok accepts req base etx =
     (if \<not> tls_ok then Returns None
      else case req of
        None \<Rightarrow> Returns None
      | Some r \<Rightarrow>
          and_then (server_callback P dflt version r (101, base)) (\<lambda>(response, level).
            Returns (if accepts response then Some (conn_new level etx) else None)))"

section \<open>The accept loop\<close>

text \<open>
  What \<open>run\<close> does with a list of outcomes of \<open>accept\<close> (a stream, or an error): the switch it
  starts and the streams it hands to connection handlers, each with the switch's notification
  channel. \<open>Inl\<close>: the address could not be bound.
\<close>

definition server_serve ::
  "bool \<Rightarrow> nat \<Rightarrow> 's option list \<Rightarrow> ('tls, 'hv) server \<Rightarrow> (unit + event_switch \<times> ('s \<times> nat) list) outcome" where
  "server_serve bind_ok notif_chan accepted s =
     (if \<not> bind_ok then Returns (Inl ())
      else and_then (unwrap (sv_event_rx s)) (\<lambda>rx.
        Returns (Inr (switch_new, map (\<lambda>stream. (stream, notif_chan)) (List.map_filter id accepted)))))"

section \<open>Properties\<close>

text \<open>
  Set-up. A server can be built from any configuration and its application may use the handles
  in any way; the topic notifier is handed out exactly once, every emitter feeds the channel the
  switch reads, and \<open>run\<close> then finds the event receiver in place: it starts an empty switch and one
  handler per accepted stream, in order, all on the same notification channel.
\<close>

theorem server_runs_with_one_notifier:
  assumes "http_law P"
  shows "\<exists>s s'. server_new P ev tn cfg = Returns s
    \<and> take_notifiers (Suc k) s = (Some tn # replicate k None, s')
    \<and> get_event_emitter s = ev \<and> get_event_emitter s' = ev \<and> sv_event_rx s' = Some ev
    \<and> server_serve True ch accepted s'
        = Returns (Inr (switch_new, map (\<lambda>x. (x, ch)) (List.map_filter id accepted)))"
proof -
  obtain v where v: "hl_version_string P (version_major cfg) = Returns v"
    using hl_version_string_eq [OF assms] by blast
  define s where "s = \<lparr>sv_config = cfg, sv_version = v, sv_event_rx = Some ev, sv_event_tx = ev,
      sv_topic_rx = Some tn, sv_topic_tx = tn\<rparr>"
  have "server_new P ev tn cfg = Returns s" using v by (simp add: server_new_def s_def)
  then show ?thesis
    by (intro exI [of _ s] exI [of _ "s\<lparr>sv_topic_rx := None\<rparr>"])
      (simp add: take_notifiers_Suc get_event_emitter_def server_serve_def s_def del: take_notifiers.simps)
qed

text \<open>
  A connection starts clean. Whatever the client's request is, setting up a connection does not
  panic, and a loop that starts has 256 free identifiers, no subscriptions, its own event channel
  and a compression level of at most 9; without TLS or an upgrade no loop starts.
\<close>

theorem connection_starts_clean:
  assumes "http_law P" and "dflt \<le> 9" and "hl_version_string P major = Returns version"
    and "hdr_get P base ''Sec-WebSocket-Protocol'' = None" and "hdr_get P base ''X-HL-Compress'' = None"
  shows "\<exists>c. conn_setup P dflt version tls_ok accepts req base tx = Returns c
    \<and> (\<forall>x. c = Some x \<longrightarrow> tls_ok \<and> req \<noteq> None \<and> conn_inv x \<and> True \<notin> set (in_flight x)
        \<and> subscriptions x = Map.empty \<and> events_tx x = tx \<and> compression x \<le> 9)"
proof (cases "tls_ok \<and> req \<noteq> None")
  case True
  then obtain r where r: "req = Some r" by blast
  have "hv_to_str P version \<noteq> None"
    using hl_version_string_eq [OF assms(1), of major] assms(3) by auto
  from server_callback_headers [OF assms(1) this assms(4,5), of dflt r 101]
  obtain resp where "server_callback P dflt version r (101, base) = Returns (resp, negotiate_level P dflt r)"
    by metis
  then show ?thesis
    using True r negotiate_level_le [OF assms(2), of P r]
    by (auto simp: conn_setup_def conn_new_def conn_inv_def)
next
  case False
  then have "conn_setup P dflt version tls_ok accepts req base tx = Returns None"
    by (auto simp: conn_setup_def)
  then show ?thesis by blast
qed

theorem server_runs_with_one_notifier_witness:
  "\<exists>s s'. server_new demo_http 0 1 \<lparr>address = ''a'', version_major = 2, tls = ()\<rparr> = Returns s
    \<and> take_notifiers 2 s = ([Some 1, None], s')
    \<and> server_serve True 5 [Some ''x'', None, Some ''y''] s' = Returns (Inr (switch_new, [(''x'', 5), (''y'', 5)]))"
  using server_runs_with_one_notifier [OF demo_http_law, of 0 1 "\<lparr>address = ''a'', version_major = 2, tls = ()\<rparr>" 1 5
      "[Some ''x'', None, Some ''y'']"]
  by (auto simp: List.map_filter_simps numeral_2_eq_2 simp del: take_notifiers.simps)

theorem connection_starts_clean_witness:
  "\<exists>x. conn_setup demo_http 6 ''hl/2'' True (\<lambda>r. True) (Some []) [] 4 = Returns (Some x)
    \<and> events_tx x = 4 \<and> compression x \<le> 9"
proof -
  have v: "hl_version_string demo_http 2 = Returns ''hl/2''"
    by (simp add: hl_version_string_def demo_http_def)
  have "conn_setup demo_http 6 ''hl/2'' True (\<lambda>r. True) (Some []) [] 4 = Returns (Some (conn_new 6 4))"
    by (simp add: conn_setup_def server_callback_def demo_http_def negotiate_level_def)
  then show ?thesis
    using connection_starts_clean [OF demo_http_law _ v, of 6 "[]" True "\<lambda>r. True" "Some []" 4]
    by (auto simp: demo_http_def)
qed

end
