(* ===== verification/HL_AppClient.thy ===== *)
theory HL_AppClient
  imports HL_Handshake HL_System
begin

text \<open>
  The client as the application uses it: the construction and connection of the runtime
  (\<open>Client::new\<close>, \<open>new_self_signed\<close>, \<open>new_with_config\<close>, \<open>connect\<close> in \<open>src/client.rs\<close>) and the
  application client the \<open>rpc\<close> macro generates around it (\<open>macros/src/lib.rs\<close>).
\<close>

section \<open>The runtime client\<close>

record 'hv runtime =
  rt_host :: string
  rt_compression :: nat
  rt_version :: 'hv

definition new_with_config ::
  "('hv, 'hm) http \<Rightarrow> (string \<Rightarrow> nat option) \<Rightarrow> string \<Rightarrow> string \<Rightarrow> nat \<Rightarrow> 'hv runtime outcome" where
  "new_with_config P major_of hl_version host level =
     and_then (unwrap (major_of hl_version)) (\<lambda>major.
       and_then (hl_version_string P major) (\<lambda>v.
         Returns \<lparr>rt_host = host, rt_compression = level, rt_version = v\<rparr>))"

definition runtime_new_self_signed ::
  "('hv, 'hm) http \<Rightarrow> (string \<Rightarrow> nat option) \<Rightarrow> string \<Rightarrow> string \<Rightarrow> nat \<Rightarrow> 'hv runtime outcome" where
  "runtime_new_self_signed P major_of hl_version host level = new_with_config P major_of hl_version host level"

text \<open>
  \<open>new\<close> loads the system's certificates (\<open>None\<close>: loading fails) and adds each to the root store,
  unwrapping both.
\<close>

definition runtime_new ::
  "('hv, 'hm) http \<Rightarrow> (string \<Rightarrow> nat option) \<Rightarrow> string \<Rightarrow> ('cert \<Rightarrow> bool) \<Rightarrow> 'cert list option \<Rightarrow>
   string \<Rightarrow> nat \<Rightarrow> 'hv runtime outcome" where
  "runtime_new P major_of hl_version store_takes certs host level =
     and_then (unwrap certs) (\<lambda>cs.
       if list_all store_takes cs then new_with_config P major_of hl_version host level else Panics)"

text \<open>
  \<open>connect\<close>: the request, the transport's answer, the check, the hand-over of the control channels
  (a panic when the application is gone), then the loop over \<open>ins\<close> from a fresh table and the
  default state. An error of closing the stream is only logged.
\<close>

definition client_connect ::
  "('hv, 'hm) http \<Rightarrow> (string \<Rightarrow> bool) \<Rightarrow> string \<Rightarrow> ('hm \<Rightarrow> 'e + 'hm) \<Rightarrow> bool \<Rightarrow>
   ('st \<Rightarrow> state_update list \<Rightarrow> 'st \<times> unit handler_result) \<Rightarrow> ('enc, 'dec) hl_lib \<Rightarrow> 'st \<Rightarrow>
   (bool \<times> 'tx client_input) list \<Rightarrow> 'hv runtime \<Rightarrow>
   ('e connect_error + flow \<times> ('tx, 'st) client \<times> 'tx client_effect list) outcome" where
  "client_connect P uri_ok key transport app_listens apply_upd L dflt ins rt =
     and_then (client_request P uri_ok
        \<lparr>hello_host = rt_host rt, hello_key = key, hello_version = rt_version rt, hello_level = rt_compression rt\<rparr>) (\<lambda>req.
       and_then (client_check P (rt_version rt) (transport req)) (\<lambda>checked.
         case checked of
           Inl e \<Rightarrow> Returns (Inl e)
         | Inr announced \<Rightarrow>
             (if app_listens
              then and_then (client_loop apply_upd L ins (client_new dflt (rt_compression rt))) (\<lambda>r. Returns (Inr r))
              else Panics)))"

section \<open>The generated application client\<close>

text \<open>Each handle is known by the number of the connection it belongs to.\<close>

record app_client =
  app_host :: string
  app_self_signed :: bool
  app_shutdown :: "nat option"
  app_rpc_tx :: "nat option"
  app_events_tx :: "nat option"
  app_state :: "nat option"
  app_compression :: nat

definition app_new_self_signed :: "string \<Rightarrow> nat \<Rightarrow> app_client" where
  "app_new_self_signed host level = \<lparr>app_host = host, app_self_signed = True, app_shutdown = None,
     app_rpc_tx = None, app_events_tx = None, app_state = None, app_compression = level\<rparr>"

definition app_new :: "string \<Rightarrow> nat \<Rightarrow> app_client" where
  "app_new host level = \<lparr>app_host = host, app_self_signed = False, app_shutdown = None,
     app_rpc_tx = None, app_events_tx = None, app_state = None, app_compression = level\<rparr>"

text \<open>The constructors the macro generates, with or without the feature that disables self-signed ones.\<close>

definition client_new_fns :: "bool \<Rightarrow> (string \<times> (string \<Rightarrow> nat \<Rightarrow> app_client)) list" where
  "client_new_fns disable_self_signed =
     (if disable_self_signed then [(''new'', app_new)]
      else [(''new_self_signed'', app_new_self_signed), (''new'', app_new)])"

text \<open>
  What the task that runs the runtime client reports: the control channels of a connection, its
  error, or nothing because it panicked (then the error channel is closed and unwrapped).
\<close>

datatype 'e report = ControlChannels nat | ConnectError 'e | TaskGone

definition app_connect :: "'e report \<Rightarrow> app_client \<Rightarrow> (app_client \<times> ('e + unit)) outcome" where
  "app_connect r a =
     (case r of
        ControlChannels n \<Rightarrow>
          Returns (a\<lparr>app_shutdown := Some n, app_rpc_tx := Some n, app_events_tx := Some n, app_state := Some n\<rparr>, Inr ())
      | ConnectError e \<Rightarrow> Returns (a, Inl e)
      | TaskGone \<Rightarrow> Panics)"

text \<open>\<open>Err\<close>, or the connection whose state is read or whose events are received.\<close>

definition app_read_state :: "app_client \<Rightarrow> nat handler_result" where
  "app_read_state a = (case app_state a of Some n \<Rightarrow> Inr n | None \<Rightarrow> Inl ClientNotConnected)"

definition app_subscribe :: "app_client \<Rightarrow> nat handler_result" where
  "app_subscribe a = (case app_events_tx a of Some n \<Rightarrow> Inr n | None \<Rightarrow> Inl ClientNotConnected)"

text \<open>The client after taking the sender, and the connection told to shut down.\<close>

definition app_disconnect :: "app_client \<Rightarrow> app_client \<times> nat option" where
  "app_disconnect a = (a\<lparr>app_shutdown := None\<rparr>, app_shutdown a)"

definition app_drop :: "app_client \<Rightarrow> nat option" where
  "app_drop a = snd (app_disconnect a)"

text \<open>
  \<open>rt_listens\<close> says whether the runtime's receiver still exists, that is, whether the request can be
  queued (the channel holds ten, and sending waits for a place); \<open>reply\<close> is what arrives on the
  call's own channel, \<open>None\<close> when its sender is dropped, in the queue or in the table of active calls.
  Both are unwrapped.
\<close>

definition make_rpc_call ::
  "'c rkyv \<Rightarrow> bool \<Rightarrow> bytes handler_result option \<Rightarrow> 'c \<Rightarrow> app_client \<Rightarrow> bytes handler_result outcome" where
  "make_rpc_call C rt_listens reply call a =
     (case app_rpc_tx a of
        Some rpc_chan \<Rightarrow>
          (case to_bytes C call of
             None \<Rightarrow> Returns (Inl ClientEncodeError)
           | Some b \<Rightarrow> (if rt_listens then unwrap reply else Panics))
      | None \<Rightarrow> Returns (Inl ClientNotConnected))"

section \<open>Sessions\<close>

text \<open>What an application does with its client besides calling it.\<close>

datatype 'e app_op = OpConnect "'e report" | OpDisconnect

fun app_run :: "'e app_op list \<Rightarrow> app_client \<Rightarrow> app_client outcome" where
  "app_run [] a = Returns a"
| "app_run (OpConnect r # ops) a = and_then (app_connect r a) (\<lambda>(a', res). app_run ops a')"
| "app_run (OpDisconnect # ops) a = app_run ops (fst (app_disconnect a))"

text \<open>The last connection that was established.\<close>

fun last_connection :: "'e app_op list \<Rightarrow> nat option \<Rightarrow> nat option" where
  "last_connection [] n = n"
| "last_connection (OpConnect (ControlChannels m) # ops) n = last_connection ops (Some m)"
| "last_connection (OpConnect r # ops) n = last_connection ops n"
| "last_connection (OpDisconnect # ops) n = last_connection ops n"

definition handles_agree :: "nat option \<Rightarrow> app_client \<Rightarrow> bool" where
  "handles_agree n a \<longleftrightarrow> app_rpc_tx a = n \<and> app_state a = n \<and> app_events_tx a = n"

lemma app_connect_handles:
  assumes "app_connect r a = Returns (a', res)" "handles_agree n a"
  shows "handles_agree (last_connection [OpConnect r] n) a'"
  using assms by (cases r) (auto simp: app_connect_def handles_agree_def)

lemma app_run_handles:
  "app_run ops a = Returns a' \<Longrightarrow> handles_agree n a \<Longrightarrow> handles_agree (last_connection ops n) a'"
proof (induction ops arbitrary: a n)
  case Nil
  then show ?case by simp
next
  case (Cons x ops)
  show ?case
  proof (cases x)
    case (OpConnect r)
    then obtain a1 res where c: "app_connect r a = Returns (a1, res)" and r: "app_run ops a1 = Returns a'"
      using Cons.prems(1) by (auto simp: and_then_Returns_iff)
    have "last_connection (x # ops) n = last_connection ops (last_connection [OpConnect r] n)"
      using OpConnect by (cases r) simp_all
    then show ?thesis using Cons.IH [OF r app_connect_handles [OF c Cons.prems(2)]] by simp
  next
    case OpDisconnect
    have "handles_agree n (fst (app_disconnect a))"
      using Cons.prems(2) by (simp add: app_disconnect_def handles_agree_def)
    then show ?thesis using Cons.IH [of "fst (app_disconnect a)" n] Cons.prems(1) OpDisconnect by simp
  qed
qed

section \<open>The calls of a session that ends\<close>

lemma completions_answers_out: "completions es = map fst (answers_out es)"
  by (induction es rule: completions.induct) auto

lemma balance_distinct:
  assumes "mset xs = mset ys + M" "distinct xs" "x \<in> set xs"
  shows "x \<in># M \<longleftrightarrow> x \<notin> set ys"
proof -
  have "count (mset xs) x = 1" using assms(2,3) by (simp add: distinct_count_atmost_1)
  then have "count (mset ys) x + count M x = 1" using assms(1) by (metis count_union)
  then consider "count (mset ys) x = 0" "count M x = 1" | "count (mset ys) x = 1" "count M x = 0"
    by linarith
  then show ?thesis by cases (metis count_eq_zero_iff set_mset_mset zero_neq_one)+
qed

section \<open>Properties\<close>

text \<open>
  The connection is refused or served. With a valid host, \<open>connect\<close> returns the transport's error,
  returns \<open>HandshakeIncomplete\<close> when the response does not carry this client's version, and otherwise
  hands over the control channels and runs the loop from an empty table and the default state, which
  never panics; when the application no longer waits for the channels, the hand-over panics.
\<close>

theorem client_connect_outcome:
  assumes "http_law P" and "major_of hl_version = Some major"
    and "new_with_config P major_of hl_version host level = Returns rt"
    and "client_request P uri_ok \<lparr>hello_host = host, hello_key = key, hello_version = rt_version rt, hello_level = level\<rparr> = Returns req"
  shows "\<exists>r. client_loop f L ins (client_new dflt level) = Returns r
    \<and> client_connect P uri_ok key transport app_listens f L dflt ins rt =
        (case transport req of
           Inl e \<Rightarrow> Returns (Inl (Transport e))
         | Inr headers \<Rightarrow>
             (if hdr_get P headers ''Sec-WebSocket-Protocol'' \<noteq> Some (rt_version rt) then Returns (Inl HandshakeIncomplete)
              else if app_listens then Returns (Inr r) else Panics))"
proof -
  obtain v where v: "hl_version_string P major = Returns v" "hv_to_str P v = Some (''hl/'' @ show_nat major)"
    using hl_version_string_eq [OF assms(1)] by blast
  have rt: "rt = \<lparr>rt_host = host, rt_compression = level, rt_version = v\<rparr>"
    using assms(2,3) v(1) by (simp add: new_with_config_def)
  obtain r where r: "client_loop f L ins (client_new dflt level) = Returns r"
    using client_loop_total [of "client_new dflt level"] by fastforce
  show ?thesis
  proof (intro exI [of _ r] conjI r, cases "transport req")
    case (Inr headers)
    then show "client_connect P uri_ok key transport app_listens f L dflt ins rt = (case transport req of
           Inl e \<Rightarrow> Returns (Inl (Transport e))
         | Inr headers \<Rightarrow>
             (if hdr_get P headers ''Sec-WebSocket-Protocol'' \<noteq> Some (rt_version rt) then Returns (Inl HandshakeIncomplete)
              else if app_listens then Returns (Inr r) else Panics))"
      using assms(4) v(2) rt r
      by (cases "hdr_get P headers ''Sec-WebSocket-Protocol''")
        (simp_all add: client_connect_def client_check_def Let_def)
  qed (use assms(4) rt r in \<open>simp add: client_connect_def client_check_def\<close>)
qed

text \<open>
  C26: handles of an application client. After any sequence of connections (established or failed)
  and disconnections, calls, state and events belong to the last connection established; before the
  first one they all answer \<open>ClientNotConnected\<close>.
\<close>

theorem app_client_handles:
  assumes "a0 \<in> {app_new host level, app_new_self_signed host level}" and "app_run ops a0 = Returns a"
  shows "app_rpc_tx a = last_connection ops None
    \<and> app_read_state a = (case last_connection ops None of None \<Rightarrow> Inl ClientNotConnected | Some n \<Rightarrow> Inr n)
    \<and> app_subscribe a = app_read_state a
    \<and> (last_connection ops None = None \<longleftrightarrow>
        (\<forall>rt_listens reply. make_rpc_call C rt_listens reply call a = Returns (Inl ClientNotConnected)))"
proof -
  have "handles_agree None a0" using assms(1) by (auto simp: handles_agree_def app_new_def app_new_self_signed_def)
  from app_run_handles [OF assms(2) this] have h: "app_rpc_tx a = last_connection ops None"
    "app_state a = last_connection ops None" "app_events_tx a = last_connection ops None"
    by (simp_all add: handles_agree_def)
  have "(app_rpc_tx a = None) = (\<forall>rt_listens reply. make_rpc_call C rt_listens reply call a = Returns (Inl ClientNotConnected))"
  proof (cases "app_rpc_tx a")
    case None
    then show ?thesis by (simp add: make_rpc_call_def)
  next
    case (Some n)
    then have "make_rpc_call C False None call a \<noteq> Returns (Inl ClientNotConnected)"
      by (simp add: make_rpc_call_def split: option.split)
    with Some show ?thesis by (metis option.distinct(1))
  qed
  then show ?thesis using h by (simp add: app_read_state_def app_subscribe_def)
qed

text \<open>
  C25: what a disconnection does to calls. \<open>disconnect\<close> tells the current connection to shut down
  but keeps the client's sender, so a later call panics on the closed channel instead of answering
  \<open>ClientNotConnected\<close>; of the calls the loop has taken when it stops, exactly those still in the
  table of active calls panic, while the others return the answer they were given; and a call that
  is still queued in the channel to the loop (which holds ten) panics, too.
\<close>

theorem disconnect_panics_calls:
  assumes "app_connect (ControlChannels n) a = Returns (a1, Inr ())" and "app_disconnect a1 = (a2, told)"
    and "to_bytes C call = Some b"
    and "client_loop f L ins (client_new dflt level) = Returns (Break, c, out)"
    and "distinct (submissions ins)" and "tx \<in> set (submissions ins)"
  shows "told = Some n \<and> make_rpc_call C False reply call a2 = Panics
    \<and> (make_rpc_call C True (map_of (answers_out out) tx) call a1 = Panics \<longleftrightarrow>
        tx \<in># occupants (active_rpc_calls c))
    \<and> (\<forall>r. map_of (answers_out out) tx = Some r \<longrightarrow>
        make_rpc_call C True (map_of (answers_out out) tx) call a1 = Returns r)
    \<and> (\<forall>queued. queued \<notin> set (submissions ins) \<longrightarrow>
        make_rpc_call C True (map_of (answers_out out) queued) call a1 = Panics)"
proof -
  have a: "app_rpc_tx a1 = Some n" "app_rpc_tx a2 = Some n" "told = Some n"
    using assms(1,2) by (auto simp: app_connect_def app_disconnect_def)
  have bal: "mset (submissions ins) = mset (completions out) + occupants (active_rpc_calls c)"
    using client_loop_balance [OF client_inv_new assms(4)] by (simp add: client_new_def)
  then have "set (completions out) \<subseteq> set (submissions ins)"
    by (metis mset_subset_eq_add_left set_mset_mono set_mset_mset)
  then have "map_of (answers_out out) q = None" if "q \<notin> set (submissions ins)" for q
    using that by (auto simp: completions_answers_out map_of_eq_None_iff)
  moreover from balance_distinct [OF bal assms(5,6)]
  have "tx \<in># occupants (active_rpc_calls c) \<longleftrightarrow> map_of (answers_out out) tx = None"
    by (simp add: completions_answers_out map_of_eq_None_iff)
  ultimately show ?thesis using a assms(3) by (simp add: make_rpc_call_def)
qed


section \<open>Instances\<close>

theorem app_client_handles_witness:
  "\<exists>a. app_run [OpConnect (ConnectError ()), OpConnect (ControlChannels 4), OpDisconnect] (app_new ''h'' 6) = Returns a
    \<and> app_read_state a = Inr 4 \<and> app_subscribe a = Inr 4"
proof -
  obtain a where "app_run [OpConnect (ConnectError ()), OpConnect (ControlChannels 4), OpDisconnect] (app_new ''h'' 6) = Returns a"
    by (simp add: app_connect_def app_disconnect_def)
  with app_client_handles [OF _ this, of "''h''" 6 byte_rkyv 0] show ?thesis by simp
qed

theorem disconnect_panics_calls_witness:
  "\<exists>a1 a2. app_connect (ControlChannels 4) (app_new ''h'' 6) = Returns (a1, Inr () :: unit + unit)
    \<and> app_disconnect a1 = (a2, Some 4) \<and> make_rpc_call byte_rkyv False None 7 a2 = Panics
    \<and> make_rpc_call byte_rkyv True None 7 a1 = Panics"
proof -
  obtain a1 where a1: "app_connect (ControlChannels 4) (app_new ''h'' 6) = Returns (a1, Inr () :: unit + unit)"
    by (simp add: app_connect_def)
  obtain a2 told where a2: "app_disconnect a1 = (a2, told)" by fastforce
  have p: "position (\<lambda>x. x = None) (replicate 256 (None :: nat option)) = Some 0"
    by (simp add: numeral_eq_Suc)
  let ?c = "(client_new () 6)\<lparr>active_rpc_calls := (replicate 256 None)[0 := Some (7 :: nat)]\<rparr>"
  have l: "client_loop keep_state demo_lib [(True, AppCall [42] 7), (True, Shutdown)] (client_new () 6)
      = Returns (Break, ?c, [CSend [1, 0, 42]])"
    using p by (simp add: on_app_call_def client_new_def)
  have "to_bytes byte_rkyv 7 = Some [7]" by (simp add: byte_rkyv_def)
  from disconnect_panics_calls [OF a1 a2 this l, of 7 None] show ?thesis
    using a1 a2 occupants_fill [of 0 "replicate 256 None" "7 :: nat"] by (auto simp: client_new_def)
qed

end
