(* ===== verification/HL_Macro.thy ===== *)
theory HL_Macro
  imports HL_AppClient
begin

text \<open>
  The \<open>rpc\<close> macro (\<open>macros/src/lib.rs\<close>): from the methods of a trait it generates the \<open>RpcCall\<close>
  enum, the server's \<open>handle_rpc_call\<close> and the client's methods. The three are built from the same
  trait by separate code; here they are data computed from the trait's items, with what the
  generated code does when it runs. Identifiers are ASCII, as \<open>string\<close>.
\<close>

section \<open>\<open>snake_to_pascal_case\<close>\<close>

definition is_lower :: "char \<Rightarrow> bool" where
  "is_lower c \<longleftrightarrow> 97 \<le> (of_char c :: nat) \<and> (of_char c :: nat) \<le> 122"

definition is_upper :: "char \<Rightarrow> bool" where
  "is_upper c \<longleftrightarrow> 65 \<le> (of_char c :: nat) \<and> (of_char c :: nat) \<le> 90"

definition is_digit :: "char \<Rightarrow> bool" where
  "is_digit c \<longleftrightarrow> 48 \<le> (of_char c :: nat) \<and> (of_char c :: nat) \<le> 57"

definition to_uppercase :: "char \<Rightarrow> char" where
  "to_uppercase c = (if is_lower c then char_of ((of_char c :: nat) - 32) else c)"

text \<open>The closure over the characters, with \<open>capitalize_next\<close> as its state.\<close>

fun pascal_loop :: "bool \<Rightarrow> string \<Rightarrow> string" where
  "pascal_loop capitalize_next [] = []"
| "pascal_loop capitalize_next (c # s) =
     (if c = CHR ''_'' then pascal_loop True s
      else if capitalize_next then to_uppercase c # pascal_loop False s
      else c # pascal_loop capitalize_next s)"

definition snake_to_pascal_case :: "string \<Rightarrow> string" where
  "snake_to_pascal_case s = pascal_loop True s"

section \<open>The trait and what is generated from it\<close>

datatype pat = PatIdent string | PatOther string

datatype fn_arg = Receiver | Typed pat string

record method_sig =
  sig_ident :: string
  sig_inputs :: "fn_arg list"

datatype trait_item = MethodItem method_sig | OtherItem

fun typed_pat :: "fn_arg \<Rightarrow> pat option" where
  "typed_pat Receiver = None"
| "typed_pat (Typed p ty) = Some p"


fun the_method :: "trait_item \<Rightarrow> method_sig option" where
  "the_method (MethodItem m) = Some m"
| "the_method OtherItem = None"


text \<open>The arms of the server's \<open>match\<close>: variant, bound patterns, method called with them.\<close>

definition server_methods :: "trait_item list \<Rightarrow> (string \<times> pat list \<times> string) list" where
  "server_methods items =
     map (\<lambda>m. (snake_to_pascal_case (sig_ident m), List.map_filter typed_pat (sig_inputs m), sig_ident m))
       (List.map_filter the_method items)"

text \<open>The client's methods: name, variant constructed, patterns used as its fields.\<close>

definition client_methods :: "trait_item list \<Rightarrow> (string \<times> string \<times> pat list) list" where
  "client_methods items =
     map (\<lambda>m. (sig_ident m, snake_to_pascal_case (sig_ident m), List.map_filter typed_pat (sig_inputs m)))
       (List.map_filter the_method items)"

section \<open>Running the generated code\<close>

text \<open>A value of the enum: its variant and the values of its fields by name.\<close>

datatype 'v rpc_call = RpcCall (call_variant: string) (call_fields: "(string \<times> 'v) list")

fun pat_name :: "pat \<Rightarrow> string" where
  "pat_name (PatIdent x) = x"
| "pat_name (PatOther x) = x"

text \<open>\<open>RpcCall::Variant { a, b }\<close> in a client method, with the values of its parameters.\<close>

definition build_call :: "string \<times> string \<times> pat list \<Rightarrow> 'v list \<Rightarrow> 'v rpc_call" where
  "build_call cm args = RpcCall (fst (snd cm)) (zip (map pat_name (snd (snd cm))) args)"

text \<open>
  The \<open>match\<close>: the first arm of the variant binds the fields by name and calls the method with
  them in its own order. \<open>None\<close>: no arm or a field it does not have, which the compiler excludes.
\<close>

definition dispatch ::
  "(string \<times> pat list \<times> string) list \<Rightarrow> 'v rpc_call \<Rightarrow> (string \<times> 'v list) option" where
  "dispatch arms call =
     (case find (\<lambda>arm. fst arm = call_variant call) arms of
        None \<Rightarrow> None
      | Some (v, pats, method) \<Rightarrow>
          map_option (Pair method) (those (map (\<lambda>p. map_of (call_fields call) (pat_name p)) pats)))"

text \<open>
  \<open>handle_rpc_call\<close>: decode, match, run the method (\<open>impl\<close>), pass its error on, serialize its
  result and unwrap that. \<open>R method\<close> serializes the return type of a method; the type of values holds
  those of all parameters and results.
\<close>

definition handle_rpc_call ::
  "'v rpc_call rkyv \<Rightarrow> (string \<Rightarrow> 'v rkyv) \<Rightarrow> trait_item list \<Rightarrow> (string \<Rightarrow> 'v list \<Rightarrow> 'v handler_result) \<Rightarrow>
   bytes \<Rightarrow> bytes handler_result outcome" where
  "handle_rpc_call C R items impl b =
     (case from_bytes C b of
        None \<Rightarrow> Returns (Inl ServerDecodeError)
      | Some call \<Rightarrow>
          (case dispatch (server_methods items) call of
             None \<Rightarrow> Panics
           | Some (method, args) \<Rightarrow>
               (case impl method args of
                  Inl e \<Rightarrow> Returns (Inl e)
                | Inr v \<Rightarrow> and_then (unwrap (to_bytes (R method) v)) (\<lambda>out. Returns (Inr out)))))"

text \<open>The generated handler: a controller of its own state, and the handles the runtime gives it.\<close>

record 'v handler =
  hd_state :: "'v state_controller"
  hd_subscriptions :: nat
  hd_events :: nat

definition handler_new :: "'v list \<Rightarrow> nat \<Rightarrow> nat \<Rightarrow> 'v handler" where
  "handler_new dflt subscriptions_chan events_chan =
     \<lparr>hd_state = controller_new dflt, hd_subscriptions = subscriptions_chan, hd_events = events_chan\<rparr>"

text \<open>A client method: make the call, decode a result, pass an error on.\<close>

definition client_method ::
  "'v rpc_call rkyv \<Rightarrow> (string \<Rightarrow> 'v rkyv) \<Rightarrow> bool \<Rightarrow> bytes handler_result option \<Rightarrow> string \<times> string \<times> pat list \<Rightarrow> 'v list \<Rightarrow>
   app_client \<Rightarrow> 'v handler_result outcome" where
  "client_method C R rt_listens reply cm args a =
     and_then (make_rpc_call C rt_listens reply (build_call cm args) a) (\<lambda>r.
       Returns (case r of
         Inr b \<Rightarrow> (case from_bytes (R (fst cm)) b of None \<Rightarrow> Inl ClientDecodeError | Some v \<Rightarrow> Inr v)
       | Inl e \<Rightarrow> Inl e))"

section \<open>Names\<close>

text \<open>
  Snake case: words of lower-case letters and digits, each starting with a letter, joined by single
  underscores.
\<close>

fun snake_rest :: "bool \<Rightarrow> string \<Rightarrow> bool" where
  "snake_rest start [] \<longleftrightarrow> \<not> start"
| "snake_rest True (c # s) \<longleftrightarrow> is_lower c \<and> snake_rest False s"
| "snake_rest False (c # s) \<longleftrightarrow> (if c = CHR ''_'' then snake_rest True s else (is_lower c \<or> is_digit c) \<and> snake_rest False s)"

definition is_snake :: "string \<Rightarrow> bool" where
  "is_snake s \<longleftrightarrow> snake_rest True s"

text \<open>The way back: an underscore before every capital, which becomes a small letter.\<close>

fun unpascal :: "string \<Rightarrow> string" where
  "unpascal [] = []"
| "unpascal (c # s) = (if is_upper c then [CHR ''_'', char_of ((of_char c :: nat) + 32)] else [c]) @ unpascal s"

lemma to_uppercase_lower:
  assumes "is_lower c"
  shows "is_upper (to_uppercase c)" and "char_of ((of_char (to_uppercase c) :: nat) + 32) = c"
proof -
  have n: "97 \<le> (of_char c :: nat)" "(of_char c :: nat) \<le> 122" using assms by (simp_all add: is_lower_def)
  then have "(of_char (to_uppercase c) :: nat) = of_char c - 32"
    using assms by (simp add: to_uppercase_def)
  moreover have "65 \<le> (of_char c :: nat) - 32 \<and> (of_char c :: nat) - 32 \<le> 90" using n by linarith
  ultimately show "is_upper (to_uppercase c)" "char_of ((of_char (to_uppercase c) :: nat) + 32) = c"
    using n by (simp_all add: is_upper_def)
qed

lemma not_upper: "is_lower c \<or> is_digit c \<Longrightarrow> \<not> is_upper c"
  by (auto simp: is_lower_def is_digit_def is_upper_def)

lemma underscore_not_lower [simp]: "\<not> is_lower CHR ''_''" "\<not> is_digit CHR ''_''"
  by (simp_all add: is_lower_def is_digit_def)

lemma unpascal_pascal_loop:
  "snake_rest cap s \<Longrightarrow> unpascal (pascal_loop cap s) = (if cap then CHR ''_'' # s else s)"
proof (induction cap s rule: snake_rest.induct)
  case (2 c s)
  then have "c \<noteq> CHR ''_''" using underscore_not_lower by auto
  with 2 show ?case by (simp add: to_uppercase_lower)
next
  case (3 c s)
  then show ?case by (auto simp: not_upper split: if_splits)
qed simp_all

lemma unpascal_snake: "is_snake s \<Longrightarrow> unpascal (snake_to_pascal_case s) = CHR ''_'' # s"
  using unpascal_pascal_loop [of True s] by (simp add: is_snake_def snake_to_pascal_case_def)

lemma snake_to_pascal_inj:
  "is_snake s \<Longrightarrow> is_snake s' \<Longrightarrow> snake_to_pascal_case s = snake_to_pascal_case s' \<Longrightarrow> s = s'"
  by (metis list.inject unpascal_snake)


lemma pascal_loop_no_underscore: "CHR ''_'' \<notin> set (pascal_loop cap s)"
proof (induction cap s rule: pascal_loop.induct)
  case (2 cap c s)
  have "\<not> is_upper CHR ''_''" by (simp add: is_upper_def)
  then have "to_uppercase c \<noteq> CHR ''_''" if "c \<noteq> CHR ''_''"
    using that to_uppercase_lower(1) [of c] by (cases "is_lower c") (metis, simp add: to_uppercase_def)
  with 2 show ?case by auto
qed simp

text \<open>Letters after the first of a word stay as they are, capitals too.\<close>

lemma pascal_loop_word:
  "CHR ''_'' \<notin> set w \<Longrightarrow> pascal_loop False (w @ CHR ''_'' # r) = w @ pascal_loop True r"
  by (induction w) auto

lemma pascal_first_word:
  assumes "CHR ''_'' \<notin> set w" "w \<noteq> []"
  shows "snake_to_pascal_case (w @ CHR ''_'' # r) = to_uppercase (hd w) # tl w @ snake_to_pascal_case r"
  using assms pascal_loop_word [of "tl w" r] by (cases w) (auto simp: snake_to_pascal_case_def)

section \<open>Dispatch finds the method that was called\<close>

definition params :: "method_sig \<Rightarrow> string list" where
  "params m = map pat_name (List.map_filter typed_pat (sig_inputs m))"

fun plain_arg :: "fn_arg \<Rightarrow> bool" where
  "plain_arg (Typed (PatOther p) ty) = False"
| "plain_arg _ = True"

definition plain_inputs :: "method_sig \<Rightarrow> bool" where
  "plain_inputs m \<longleftrightarrow> list_all plain_arg (sig_inputs m) \<and> distinct (params m)"

text \<open>
  Traits in the language's naming style: snake-case methods with different names, whose inputs are
  plain identifiers, different within a method.
\<close>

definition well_named :: "trait_item list \<Rightarrow> bool" where
  "well_named items \<longleftrightarrow> (\<forall>m \<in> set (List.map_filter the_method items). is_snake (sig_ident m) \<and> plain_inputs m)
     \<and> distinct (map sig_ident (List.map_filter the_method items))"

lemma in_methods_iff: "m \<in> set (List.map_filter the_method items) \<longleftrightarrow> MethodItem m \<in> set items"
proof (induction items)
  case (Cons x items)
  then show ?case by (cases x) (auto simp: List.map_filter_simps)
qed (simp add: List.map_filter_simps)

lemma find_unique:
  assumes "x \<in> set xs" "P x" "\<And>y. y \<in> set xs \<Longrightarrow> P y \<Longrightarrow> y = x"
  shows "find P xs = Some x"
  using assms
proof (induction xs)
  case (Cons y ys)
  show ?case
  proof (cases "P y")
    case True
    then show ?thesis using Cons.prems(3) [of y] by simp
  next
    case False
    then have "x \<in> set ys" using Cons.prems(1,2) by auto
    then have "find P ys = Some x"
      by (rule Cons.IH [OF _ Cons.prems(2)]) (rule Cons.prems(3), simp_all)
    with False show ?thesis by simp
  qed
qed simp

lemma find_server_method:
  assumes "well_named items" "MethodItem m \<in> set items"
  shows "find (\<lambda>arm. fst arm = snake_to_pascal_case (sig_ident m)) (server_methods items) =
    Some (snake_to_pascal_case (sig_ident m), List.map_filter typed_pat (sig_inputs m), sig_ident m)"
proof (rule find_unique)
  have m: "m \<in> set (List.map_filter the_method items)" using assms(2) by (simp add: in_methods_iff)
  then show "(snake_to_pascal_case (sig_ident m), List.map_filter typed_pat (sig_inputs m), sig_ident m)
      \<in> set (server_methods items)"
    by (auto simp: server_methods_def)
  fix arm
  assume "arm \<in> set (server_methods items)" "fst arm = snake_to_pascal_case (sig_ident m)"
  then obtain m' where m': "m' \<in> set (List.map_filter the_method items)"
    and arm: "arm = (snake_to_pascal_case (sig_ident m'), List.map_filter typed_pat (sig_inputs m'), sig_ident m')"
    and eq: "snake_to_pascal_case (sig_ident m') = snake_to_pascal_case (sig_ident m)"
    by (auto simp: server_methods_def)
  have "is_snake (sig_ident m')" "is_snake (sig_ident m)"
    using assms(1) m m' unfolding well_named_def by blast+
  from snake_to_pascal_inj [OF this eq] have "sig_ident m' = sig_ident m" .
  moreover have "inj_on sig_ident (set (List.map_filter the_method items))"
    using assms(1) by (simp add: well_named_def distinct_map)
  ultimately have "m' = m" using m m' by (meson inj_onD)
  then show "arm = (snake_to_pascal_case (sig_ident m), List.map_filter typed_pat (sig_inputs m), sig_ident m)"
    using arm by simp
qed simp

lemma those_map_of_zip:
  "distinct ks \<Longrightarrow> length ks = length vs \<Longrightarrow> those (map (map_of (zip ks vs)) ks) = Some vs"
proof (induction ks vs rule: list_induct2')
  case (4 k ks v vs)
  have e: "map (\<lambda>a. if a = k then Some v else map_of (zip ks vs) a) ks = map (map_of (zip ks vs)) ks"
    using "4.prems" by (intro map_cong) auto
  show ?case using 4 by (simp add: fun_upd_def e)
qed simp_all

lemma dispatch_build_call:
  assumes "well_named items" "MethodItem m \<in> set items" "length args = length (params m)"
  shows "dispatch (server_methods items)
      (build_call (sig_ident m, snake_to_pascal_case (sig_ident m), List.map_filter typed_pat (sig_inputs m)) args)
    = Some (sig_ident m, args)"
proof -
  have "distinct (params m)"
    using assms(1,2) by (auto simp: well_named_def plain_inputs_def in_methods_iff)
  then have "those (map (map_of (zip (params m) args)) (params m)) = Some args"
    using assms(3) by (intro those_map_of_zip) simp_all
  then show ?thesis
    using find_server_method [OF assms(1,2)]
    by (simp add: dispatch_def build_call_def params_def comp_def)
qed



section \<open>A call and its answer\<close>

lemma method_round_trip:
  assumes "rkyv_law C" "rkyv_law (R (sig_ident m))"
    and "\<forall>v. impl (sig_ident m) args = Inr v \<longrightarrow> to_bytes (R (sig_ident m)) v \<noteq> None"
    and "well_named items" "MethodItem m \<in> set items" "length args = length (params m)"
    and "cm = (sig_ident m, snake_to_pascal_case (sig_ident m), List.map_filter typed_pat (sig_inputs m))"
    and "to_bytes C (build_call cm args) = Some b" "app_rpc_tx a \<noteq> None"
  shows "\<exists>res. handle_rpc_call C R items impl b = Returns res
    \<and> client_method C R True (Some res) cm args a = Returns (impl (sig_ident m) args)"
proof -
  have d: "dispatch (server_methods items) (build_call cm args) = Some (sig_ident m, args)"
    using dispatch_build_call [OF assms(4-6)] assms(7) by simp
  obtain n where n: "app_rpc_tx a = Some n" using assms(9) by blast
  have f: "from_bytes C b = Some (build_call cm args)" by (rule rkyv_lawD [OF assms(1,8)])
  show ?thesis
  proof (cases "impl (sig_ident m) args")
    case (Inl e)
    then show ?thesis
      using d f n assms(8) by (simp add: handle_rpc_call_def client_method_def make_rpc_call_def)
  next
    case (Inr v)
    obtain out where "to_bytes (R (sig_ident m)) v = Some out" using assms(3) Inr by blast
    then show ?thesis
      using d f n Inr assms(7,8) rkyv_lawD [OF assms(2), of v out]
      by (simp add: handle_rpc_call_def client_method_def make_rpc_call_def)
  qed
qed

section \<open>Properties\<close>

text \<open>
  C7: typed calls, end to end over the generated code. A client method called with arguments
  produces a request that the generated \<open>handle_rpc_call\<close> answers by running the method of the same
  name with the same arguments in the same order; the client method returns exactly what that
  method returned, its error included.
\<close>

theorem client_method_calls_server_method:
  assumes "rkyv_law C" and "rkyv_law (R (sig_ident m))"
    and "\<forall>v. impl (sig_ident m) args = Inr v \<longrightarrow> to_bytes (R (sig_ident m)) v \<noteq> None"
    and "well_named items" and "MethodItem m \<in> set items" and "length args = length (params m)"
    and "cm = (sig_ident m, snake_to_pascal_case (sig_ident m), List.map_filter typed_pat (sig_inputs m))"
    and "to_bytes C (build_call cm args) = Some b" and "app_rpc_tx a \<noteq> None"
  shows "cm \<in> set (client_methods items) \<and>
    (\<exists>res. handle_rpc_call C R items impl b = Returns res
      \<and> client_method C R True (Some res) cm args a = Returns (impl (sig_ident m) args))"
proof
  have "m \<in> set (List.map_filter the_method items)" using assms(5) by (simp add: in_methods_iff)
  then show "cm \<in> set (client_methods items)" using assms(7) by (auto simp: client_methods_def)
  show "\<exists>res. handle_rpc_call C R items impl b = Returns res
      \<and> client_method C R True (Some res) cm args a = Returns (impl (sig_ident m) args)"
    by (rule method_round_trip [where R = R and m = m and impl = impl and args = args, OF assms])
qed


text \<open>
  C30: variant names. On snake-case names the conversion can be undone, so that different methods
  never share a variant; the result has no underscore and starts with a capital. Of each word, in
  any case, only the first letter changes: \<open>foo_BAR_baz\<close> gives \<open>FooBARBaz\<close>.
\<close>

theorem snake_to_pascal_roundtrip:
  assumes "is_snake s"
  shows "unpascal (snake_to_pascal_case s) = CHR ''_'' # s
    \<and> (is_snake s' \<longrightarrow> snake_to_pascal_case s' = snake_to_pascal_case s \<longrightarrow> s' = s)
    \<and> CHR ''_'' \<notin> set (snake_to_pascal_case s) \<and> is_upper (hd (snake_to_pascal_case s))
    \<and> (CHR ''_'' \<notin> set w \<longrightarrow> w \<noteq> [] \<longrightarrow>
        snake_to_pascal_case (w @ CHR ''_'' # s') = to_uppercase (hd w) # tl w @ snake_to_pascal_case s')"
proof (intro conjI impI)
  obtain c r where s: "s = c # r" "is_lower c" using assms by (cases s) (auto simp: is_snake_def)
  then have "c \<noteq> CHR ''_''" using underscore_not_lower by auto
  then show "is_upper (hd (snake_to_pascal_case s))"
    using s by (simp add: snake_to_pascal_case_def to_uppercase_lower)
  show "CHR ''_'' \<notin> set (snake_to_pascal_case s)"
    using pascal_loop_no_underscore by (simp add: snake_to_pascal_case_def)
qed (use assms unpascal_snake snake_to_pascal_inj pascal_first_word in blast)+

section \<open>An instance\<close>

definition example_trait :: "trait_item list" where
  "example_trait = [MethodItem \<lparr>sig_ident = ''get'', sig_inputs = [Receiver]\<rparr>, OtherItem,
     MethodItem \<lparr>sig_ident = ''add_n'', sig_inputs = [Receiver, Typed (PatIdent ''n'') ''u8'', Typed (PatIdent ''m'') ''u8'']\<rparr>]"

definition example_call_rkyv :: "u8 rpc_call rkyv" where
  "example_call_rkyv = \<lparr>to_bytes = (\<lambda>c. if c = RpcCall ''AddN'' [(''n'', 3), (''m'', 4)] then Some [9] else None),
     from_bytes = (\<lambda>b. if b = [9] then Some (RpcCall ''AddN'' [(''n'', 3), (''m'', 4)]) else None)\<rparr>"

lemma example_names:
  "is_snake ''get''" "is_snake ''add_n''" "snake_to_pascal_case ''add_n'' = ''AddN''"
  by (simp_all add: is_snake_def is_lower_def snake_to_pascal_case_def to_uppercase_def char_of_def bit_0)

lemma example_well_named: "well_named example_trait"
  by (simp add: well_named_def example_trait_def example_names plain_inputs_def params_def List.map_filter_simps)

theorem client_method_calls_server_method_witness:
  "\<exists>res. handle_rpc_call example_call_rkyv (\<lambda>_. byte_rkyv) example_trait (\<lambda>name args. Inr (args ! 0 + 2 * args ! 1)) [9] = Returns res
    \<and> client_method example_call_rkyv (\<lambda>_. byte_rkyv) True (Some res) (''add_n'', ''AddN'', [PatIdent ''n'', PatIdent ''m'']) [3, 4]
        ((app_new ''h'' 6)\<lparr>app_rpc_tx := Some 0\<rparr>) = Returns (Inr 11)"
proof -
  have "rkyv_law example_call_rkyv" by (auto simp: lib_laws example_call_rkyv_def)
  moreover have "\<forall>v. to_bytes byte_rkyv v \<noteq> None" by (simp add: byte_rkyv_def)
  ultimately show ?thesis
    using byte_rkyv_law client_method_calls_server_method [OF _ _ _ example_well_named,
        where C = example_call_rkyv and R = "\<lambda>_. byte_rkyv" and m = "\<lparr>sig_ident = ''add_n'',
          sig_inputs = [Receiver, Typed (PatIdent ''n'') ''u8'', Typed (PatIdent ''m'') ''u8'']\<rparr>" and args = "[3, 4]"
        and cm = "(''add_n'', ''AddN'', [PatIdent ''n'', PatIdent ''m''])" and b = "[9]"
        and a = "(app_new ''h'' 6)\<lparr>app_rpc_tx := Some 0\<rparr>" and impl = "\<lambda>name args. Inr (args ! 0 + 2 * args ! 1)"]
    by (simp add: example_trait_def example_names params_def build_call_def example_call_rkyv_def List.map_filter_simps)
qed


theorem snake_to_pascal_roundtrip_witness:
  "unpascal (snake_to_pascal_case ''add_n'') = ''_add_n'' \<and> CHR ''_'' \<notin> set (snake_to_pascal_case ''add_n'')
   \<and> snake_to_pascal_case ''foo_BAR_baz'' = ''FooBARBaz''"
proof -
  note p = snake_to_pascal_roundtrip [OF example_names(2)]
  have "snake_to_pascal_case (''foo'' @ CHR ''_'' # ''BAR_baz'') = to_uppercase (hd ''foo'') # tl ''foo'' @ snake_to_pascal_case ''BAR_baz''"
    "snake_to_pascal_case (''BAR'' @ CHR ''_'' # ''baz'') = to_uppercase (hd ''BAR'') # tl ''BAR'' @ snake_to_pascal_case ''baz''"
    using p [of "''BAR_baz''" "''foo''"] p [of "''baz''" "''BAR''"] by simp_all
  then have "snake_to_pascal_case ''foo_BAR_baz'' = ''FooBARBaz''"
    by (simp add: to_uppercase_def is_lower_def char_of_def bit_0) (simp add: snake_to_pascal_case_def to_uppercase_def is_lower_def char_of_def bit_0)
  with p show ?thesis by blast
qed

end
