(* ===== verification/HL_Expand.thy ===== *)
theory HL_Expand
  imports HL_Macro
begin

text \<open>
  What the macros of \<open>macros/src/lib.rs\<close> put into the module they are used in: the items each
  attribute expands to, with the names they define and the types they implement traits for. The
  bodies of these items are the subject of \<open>HL_State\<close>, \<open>HL_Codec\<close>, \<open>HL_AppClient\<close> and \<open>HL_Macro\<close>.
\<close>

section \<open>Items\<close>

text \<open>
  A field without a name is \<open>None\<close> (tuple structs); \<open>UseItem\<close> imports a name, \<open>ImplItem tr ty\<close>
  implements a trait, \<open>InherentImpl\<close> adds methods.
\<close>

datatype rust_item =
    StructItem string "string option list"
  | EnumItem string
  | TraitDef string "trait_item list"
  | UseItem string
  | ImplItem string string
  | InherentImpl string
  | WithAttribute string rust_item
  | OtherRust

text \<open>
  A macro panics, or answers input it cannot parse with a compile error (\<open>parse_macro_input!\<close>), or
  gives the items of its expansion.
\<close>

datatype expansion = CompileError | Items "rust_item list"

fun item_name :: "rust_item \<Rightarrow> string option" where
  "item_name (StructItem n fs) = Some n"
| "item_name (EnumItem n) = Some n"
| "item_name (TraitDef n ms) = Some n"
| "item_name (UseItem n) = Some n"
| "item_name (WithAttribute a i) = item_name i"
| "item_name _ = None"

text \<open>Only structs and enums are types.\<close>

fun type_name :: "rust_item \<Rightarrow> string option" where
  "type_name (TraitDef n ms) = None"
| "type_name (UseItem n) = None"
| "type_name (WithAttribute a i) = type_name i"
| "type_name i = item_name i"

fun impl_target :: "rust_item \<Rightarrow> string option" where
  "impl_target (ImplItem tr ty) = Some ty"
| "impl_target (InherentImpl ty) = Some ty"
| "impl_target (WithAttribute a i) = impl_target i"
| "impl_target _ = None"

text \<open>
  What a module needs of the names its items write out: none is defined twice and every implementing
  type is among them.
\<close>

definition coherent :: "rust_item list \<Rightarrow> bool" where
  "coherent items \<longleftrightarrow> distinct (List.map_filter item_name items)
     \<and> set (List.map_filter impl_target items) \<subseteq> set (List.map_filter type_name items)"

section \<open>The macros\<close>

text \<open>The names of the fields, unwrapped, numbered from 0.\<close>

fun field_names :: "string option list \<Rightarrow> string list outcome" where
  "field_names [] = Returns []"
| "field_names (f # fs) = and_then (unwrap f) (\<lambda>n. and_then (field_names fs) (\<lambda>ns. Returns (n # ns)))"

definition field_indices :: "string list \<Rightarrow> (nat \<times> string) list" where
  "field_indices ns = zip [0..<length ns] ns"

definition connection_state :: "rust_item \<Rightarrow> expansion outcome" where
  "connection_state item =
     (case item of
        StructItem n fs \<Rightarrow>
          and_then (field_names fs) (\<lambda>_.
            Returns (Items [WithAttribute ''derive(Clone, Default, Debug)'' (StructItem n fs),
              StructItem ''StateController'' [Some ''state'', Some ''channel''],
              InherentImpl ''StateController'',
              StructItem ''StateGuard'' [Some ''state'', Some ''starting_state'', Some ''channel''],
              ImplItem ''Drop'' ''StateGuard'', ImplItem ''Deref'' ''StateGuard'', ImplItem ''DerefMut'' ''StateGuard'',
              ImplItem ''ClientState'' ''State'']))
      | _ \<Rightarrow> Returns CompileError)"

fun str_contains :: "string \<Rightarrow> string \<Rightarrow> bool" where
  "str_contains p [] \<longleftrightarrow> p = []"
| "str_contains p (c # s) \<longleftrightarrow> take (length p) (c # s) = p \<or> str_contains p s"

definition rpc_expand :: "string \<Rightarrow> rust_item \<Rightarrow> expansion" where
  "rpc_expand args item =
     (case item of
        TraitDef t ms \<Rightarrow>
          (let no_server_handler = str_contains ''no_server_handler'' args;
               client_name = t @ ''Client'';
               shared_code = [WithAttribute ''Archive, Serialize, Deserialize, check_bytes, repr(u8)'' (EnumItem ''RpcCall'')];
               server_handler = (if \<not> no_server_handler
                 then [UseItem ''ServerHandler'',
                       StructItem ''Handler'' [Some ''state'', Some ''subscriptions'', Some ''events''],
                       WithAttribute ''async_trait'' (ImplItem ''ServerHandler'' ''Handler'')] else []);
               application_client =
                 [UseItem ''ApplicationClient'',
                  StructItem client_name [Some ''host'', Some ''self_signed'', Some ''shutdown'', Some ''rpc_tx'',
                    Some ''events_tx'', Some ''state'', Some ''compression''],
                  WithAttribute ''async_trait'' (ImplItem ''ApplicationClient'' client_name),
                  InherentImpl client_name, ImplItem ''Drop'' client_name,
                  WithAttribute ''async_trait'' (ImplItem t client_name)]
           in Items ([WithAttribute ''async_trait'' (TraitDef t ms)] @ shared_code @ server_handler @ application_client))
      | _ \<Rightarrow> CompileError)"

fun rpc_handler :: "rust_item \<Rightarrow> expansion" where
  "rpc_handler (ImplItem tr ty) = Items [WithAttribute ''async_trait'' (ImplItem tr ty)]"
| "rpc_handler (InherentImpl ty) = Items [WithAttribute ''async_trait'' (InherentImpl ty)]"
| "rpc_handler _ = CompileError"

text \<open>\<open>codable\<close> parses any item and panics unless it is a struct or an enum.\<close>

fun codable_expand :: "rust_item \<Rightarrow> rust_item list outcome" where
  "codable_expand (StructItem n fs) =
     Returns [WithAttribute ''Archive, Serialize, Deserialize, check_bytes'' (StructItem n fs), ImplItem ''Into<Vec<u8>>'' n, ImplItem ''From<Vec<u8>>'' n]"
| "codable_expand (EnumItem n) =
     Returns [WithAttribute ''Archive, Serialize, Deserialize, check_bytes'' (EnumItem n), ImplItem ''Into<Vec<u8>>'' n, ImplItem ''From<Vec<u8>>'' n]"
| "codable_expand _ = Panics"

text \<open>\<open>factory!(Handler)\<close>: a closure that makes a handler from what the server hands it.\<close>

definition factory_of :: "('suc \<Rightarrow> 'subs \<Rightarrow> 'ev \<Rightarrow> 'h) \<Rightarrow> 'suc \<Rightarrow> 'subs \<Rightarrow> 'ev \<Rightarrow> 'h" where
  "factory_of new = (\<lambda>suc nstx etx. new suc nstx etx)"

section \<open>Modules with a state and a service\<close>

lemma field_names_iff: "field_names fs = Returns ns \<longleftrightarrow> fs = map Some ns"
  by (induction fs arbitrary: ns) (auto simp: and_then_Returns_iff Cons_eq_map_conv)

lemma field_names_panics: "field_names fs = Panics \<longleftrightarrow> None \<in> set fs"
proof (induction fs)
  case (Cons f fs)
  then show ?case by (cases f; cases "field_names fs") auto
qed simp

text \<open>A module that declares a state struct and a service with the generated handler.\<close>

fun items_of :: "expansion \<Rightarrow> rust_item list" where
  "items_of (Items items) = items"
| "items_of CompileError = []"

definition service_module :: "string \<Rightarrow> string option list \<Rightarrow> string \<Rightarrow> trait_item list \<Rightarrow> rust_item list outcome" where
  "service_module state_name fs t ms =
     and_then (connection_state (StructItem state_name fs)) (\<lambda>st.
       Returns (items_of st @ items_of (rpc_expand [] (TraitDef t ms)) @ items_of (rpc_handler (ImplItem t ''Handler''))))"

lemma service_module_names:
  assumes "service_module n fs t ms = Returns items"
  shows "List.map_filter item_name items
      = [n, ''StateController'', ''StateGuard'', t, ''RpcCall'', ''ServerHandler'', ''Handler'', ''ApplicationClient'', t @ ''Client'']"
    and "set (List.map_filter type_name items) = {n, ''StateController'', ''StateGuard'', ''RpcCall'', ''Handler'', t @ ''Client''}"
    and "set (List.map_filter impl_target items) = {''StateController'', ''StateGuard'', ''State'', ''Handler'', t @ ''Client''}"
  using assms
  by (auto simp: service_module_def connection_state_def rpc_expand_def and_then_Returns_iff Let_def List.map_filter_simps)

section \<open>What the macros ask of a module\<close>

text \<open>
  The annotated items of a module fit together only if the state struct is called \<open>State\<close> (the macro
  implements \<open>ClientState\<close> for that name, whatever the struct is called) and the trait does not take
  a name the macros write out, nor is called \<open>Application\<close>, whose client would be called as the trait
  \<open>ApplicationClient\<close>. A struct with unnamed fields makes the macro panic. (Names that the serializers'
  derive macros add are not considered here.)
\<close>

theorem service_module_coherent:
  "(service_module n fs t ms = Panics \<longleftrightarrow> None \<in> set fs)
    \<and> (\<forall>items. service_module n fs t ms = Returns items \<longrightarrow> coherent items \<longrightarrow>
         n = ''State'' \<and> t \<notin> {''State'', ''StateController'', ''StateGuard'', ''RpcCall'', ''ServerHandler'', ''Handler'',
           ''ApplicationClient'', ''Application''})"
proof (intro conjI allI impI)
  show "service_module n fs t ms = Panics \<longleftrightarrow> None \<in> set fs"
    by (cases "field_names fs") (auto simp: service_module_def connection_state_def simp flip: field_names_panics)
next
  fix items
  assume m: "service_module n fs t ms = Returns items" and c: "coherent items"
  note names = service_module_names [OF m]
  have d: "distinct [n, ''StateController'', ''StateGuard'', t, ''RpcCall'', ''ServerHandler'', ''Handler'', ''ApplicationClient'', t @ ''Client'']"
    and i: "''State'' \<in> {n, ''StateController'', ''StateGuard'', ''RpcCall'', ''Handler'', t @ ''Client''}"
    using c unfolding coherent_def names by auto
  have "''State'' \<noteq> t @ ''Client''" by (auto dest: arg_cong [where f = last])
  then show n: "n = ''State''" using i by auto
  show "t \<notin> {''State'', ''StateController'', ''StateGuard'', ''RpcCall'', ''ServerHandler'', ''Handler'',
      ''ApplicationClient'', ''Application''}"
    using d n by auto
qed

end
