(* ===== verification/HL_Tls.thy ===== *)
theory HL_Tls
  imports HL_Server HL_AppClient
begin

text \<open>
  The TLS set-up of both sides: the server's self-signed configuration (\<open>ServerConfig::new_self_signed\<close>
  in \<open>src/server.rs\<close>) and the two certificate policies of the client (\<open>src/client.rs\<close>). rcgen and
  rustls are parameters.
\<close>

section \<open>The server's certificate\<close>

record ('cert, 'tls) rcgen =
  generate_self_signed :: "string list \<Rightarrow> 'cert option"
  serialize_der :: "'cert \<Rightarrow> bytes option"
  private_key_der :: "'cert \<Rightarrow> bytes"
  with_single_cert :: "bytes list \<Rightarrow> bytes \<Rightarrow> 'tls option"

definition server_config_self_signed ::
  "('cert, 'tls) rcgen \<Rightarrow> (string \<Rightarrow> nat option) \<Rightarrow> string \<Rightarrow> string \<Rightarrow> 'tls server_config outcome" where
  "server_config_self_signed R major_of hl_version host =
     and_then (unwrap (generate_self_signed R [host])) (\<lambda>cert.
       and_then (unwrap (serialize_der R cert)) (\<lambda>der.
         and_then (unwrap (with_single_cert R [der] (private_key_der R cert))) (\<lambda>tls_cfg.
           server_config_new major_of hl_version host tls_cfg)))"

section \<open>What the client accepts\<close>

datatype verifier = NoCertificateVerification | RootCertStore "bytes list"

text \<open>\<open>NoCertificateVerification::verify_server_cert\<close> asserts every certificate.\<close>

definition verify_server_cert :: "bytes \<Rightarrow> bool" where
  "verify_server_cert end_entity = True"

text \<open>\<open>add\<close>: whether rustls can read a root certificate. The first it cannot is unwrapped.\<close>

fun root_store :: "(bytes \<Rightarrow> bool) \<Rightarrow> bytes list \<Rightarrow> bytes list \<Rightarrow> bytes list outcome" where
  "root_store add [] store = Returns store"
| "root_store add (c # cs) store = (if add c then root_store add cs (store @ [c]) else Panics)"

definition tls_self_signed :: verifier where
  "tls_self_signed = NoCertificateVerification"

definition tls_with_roots :: "(bytes \<Rightarrow> bool) \<Rightarrow> bytes list option \<Rightarrow> verifier outcome" where
  "tls_with_roots add native =
     and_then (unwrap native) (\<lambda>cs. and_then (root_store add cs []) (\<lambda>store. Returns (RootCertStore store)))"

text \<open>The choice in the generated \<open>connect\<close>.\<close>

definition app_verifier :: "(bytes \<Rightarrow> bool) \<Rightarrow> bytes list option \<Rightarrow> app_client \<Rightarrow> verifier outcome" where
  "app_verifier add native a = (if app_self_signed a then Returns tls_self_signed else tls_with_roots add native)"

text \<open>\<open>chain_ok roots c\<close>: rustls finds a valid chain from the certificate to one of the roots.\<close>

definition accepts_cert :: "(bytes list \<Rightarrow> bytes \<Rightarrow> bool) \<Rightarrow> verifier \<Rightarrow> bytes \<Rightarrow> bool" where
  "accepts_cert chain_ok v c =
     (case v of NoCertificateVerification \<Rightarrow> verify_server_cert c | RootCertStore roots \<Rightarrow> chain_ok roots c)"

section \<open>Which servers a client talks to\<close>

lemma root_store_all: "root_store add cs store = (if list_all add cs then Returns (store @ cs) else Panics)"
  by (induction cs arbitrary: store) auto

lemma server_config_self_signed_Returns_iff:
  "server_config_self_signed R major_of v host = Returns cfg \<longleftrightarrow>
     (\<exists>cert der tls_cfg major. generate_self_signed R [host] = Some cert \<and> serialize_der R cert = Some der
       \<and> with_single_cert R [der] (private_key_der R cert) = Some tls_cfg \<and> major_of v = Some major
       \<and> cfg = \<lparr>address = host, version_major = major, tls = tls_cfg\<rparr>)"
  by (auto simp: server_config_self_signed_def server_config_new_def and_then_Returns_iff)

text \<open>
  A client made with \<open>new_self_signed\<close> accepts every certificate, also one that was not issued for the
  host; one made with \<open>new\<close> accepts exactly those that chain to the system's certificates, and
  panics when these cannot be loaded.
\<close>

theorem client_certificate_policy:
  "(app_verifier add native (app_new_self_signed host level) = Returns v \<longrightarrow> accepts_cert chain_ok v c)
   \<and> (app_verifier add native (app_new host level) =
        (case native of None \<Rightarrow> Panics | Some cs \<Rightarrow> if list_all add cs then Returns (RootCertStore cs) else Panics))
   \<and> accepts_cert chain_ok (RootCertStore roots) c = chain_ok roots c"
  by (auto simp: app_verifier_def app_new_self_signed_def app_new_def tls_self_signed_def tls_with_roots_def
      accepts_cert_def verify_server_cert_def root_store_all split: option.split)

text \<open>
  In a build without self-signed support every client checks certificates: whichever generated
  constructor made it, it accepts only what chains to the system's certificates.
\<close>

theorem disabled_self_signed_verifies:
  "list_all (\<lambda>(name, new). \<forall>v. app_verifier add native (new host level) = Returns v \<longrightarrow>
      (\<exists>roots. native = Some roots \<and> accepts_cert chain_ok v c = chain_ok roots c)) (client_new_fns True)"
  by (auto simp: client_new_fns_def app_new_def app_verifier_def tls_with_roots_def accepts_cert_def and_then_Returns_iff
      root_store_all split: if_splits)

end
