(* ===== verification/HL_Service.thy ===== *)
theory HL_Service
  imports HL_State
begin

text \<open>
  Services: the handlers an application writes on top of the generated connection state. A method
  takes the write guard, changes the state, may notify the connection or emit events, and drops
  the guard when it returns or panics; the drop sends what changed.
\<close>

section \<open>Running a method\<close>

text \<open>What a method hands over, in order: to its subscription manager, its emitter, a send task.\<close>

datatype service_effect =
    Notify proxied_notification
  | Emit event
  | SendChanges "state_update list"

text \<open>
  A body maps the state to the state it leaves (also when it panics half-way), its effects and its
  result. \<open>flds\<close> lists the fields of the state struct in the order of declaration.
\<close>

type_synonym ('s, 'r) body = "'s \<Rightarrow> 's \<times> service_effect list \<times> 'r outcome"

definition with_write ::
  "'v rkyv list \<Rightarrow> ('s \<Rightarrow> 'v list) \<Rightarrow> ('s, 'r) body \<Rightarrow> ('s, 'r) body" where
  "with_write cs flds b s =
     (let (s', out, r) = b s;
          g = guard_deref_mut (\<lambda>_. flds s') (controller_write \<lparr>ctl_state = flds s\<rparr>)
      in case guard_drop cs g of
           Panics \<Rightarrow> (s', out, Panics)
         | Returns None \<Rightarrow> (s', out, r)
         | Returns (Some us) \<Rightarrow> (s', out @ [SendChanges us], r))"

text \<open>A method that takes the read guard only.\<close>

definition with_read :: "('s \<Rightarrow> 'r outcome) \<Rightarrow> ('s, 'r) body" where
  "with_read f s = (s, [], f s)"

text \<open>
  Calls of one connection, one after the other: the write lock serialises them, and a call that
  panics ends its own task only.
\<close>

fun serve :: "('c \<Rightarrow> ('s, 'r) body) \<Rightarrow> 'c list \<Rightarrow> 's \<Rightarrow> 's \<times> service_effect list \<times> 'r outcome list" where
  "serve call [] s = (s, [], [])"
| "serve call (c # calls) s =
     (let (s', out, r) = call c s; (s'', outs, rs) = serve call calls s' in (s'', out @ outs, r # rs))"

lemma serve_ConsE:
  assumes "serve call (c # calls) s = (s', out, rs)"
  obtains s1 out1 r outs rs1 where "call c s = (s1, out1, r)" "serve call calls s1 = (s', outs, rs1)"
    "out = out1 @ outs" "rs = r # rs1"
proof -
  obtain s1 out1 r where c: "call c s = (s1, out1, r)" by (cases "call c s")
  obtain s2 outs rs1 where r: "serve call calls s1 = (s2, outs, rs1)" by (cases "serve call calls s1")
  show thesis using that [OF c] assms c r by simp
qed

section \<open>What a service sends\<close>

fun sent_batches :: "service_effect list \<Rightarrow> state_update list list" where
  "sent_batches [] = []"
| "sent_batches (SendChanges us # es) = us # sent_batches es"
| "sent_batches (_ # es) = sent_batches es"

fun notified :: "service_effect list \<Rightarrow> proxied_notification list" where
  "notified [] = []"
| "notified (Notify n # es) = n # notified es"
| "notified (_ # es) = notified es"

fun emitted :: "service_effect list \<Rightarrow> event list" where
  "emitted [] = []"
| "emitted (Emit ev # es) = ev # emitted es"
| "emitted (_ # es) = emitted es"

lemma sent_batches_append [simp]: "sent_batches (xs @ ys) = sent_batches xs @ sent_batches ys"
  by (induction xs rule: sent_batches.induct) auto

lemma notified_append [simp]: "notified (xs @ ys) = notified xs @ notified ys"
  by (induction xs rule: notified.induct) auto

lemma emitted_append [simp]: "emitted (xs @ ys) = emitted xs @ emitted ys"
  by (induction xs rule: emitted.induct) auto

text \<open>A body that leaves the sending to the guard.\<close>

definition sends_nothing :: "('s, 'r) body \<Rightarrow> bool" where
  "sends_nothing b \<longleftrightarrow> (\<forall>s. sent_batches (fst (snd (b s))) = [])"

lemma with_write_state [simp]: "fst (with_write cs flds b s) = fst (b s)"
  by (simp add: with_write_def split_beta Let_def split: outcome.split option.split)

lemma with_write_notified [simp]: "notified (fst (snd (with_write cs flds b s))) = notified (fst (snd (b s)))"
  by (simp add: with_write_def split_beta Let_def split: outcome.split option.split)

lemma with_write_emitted [simp]: "emitted (fst (snd (with_write cs flds b s))) = emitted (fst (snd (b s)))"
  by (simp add: with_write_def split_beta Let_def split: outcome.split option.split)

text \<open>When the changed fields can be serialized, the drop sends them and keeps the result.\<close>

lemma with_write_sends:
  assumes "list_all rkyv_law cs" "length (flds s) = length cs" "length (flds (fst (b s))) = length cs"
    and "list_all2 (\<lambda>c v. to_bytes c v \<noteq> None) cs (flds (fst (b s)))" "sends_nothing b"
  shows "apply_changes cs (flds s) (concat (sent_batches (fst (snd (with_write cs flds b s)))))
      = (flds (fst (b s)), Inr ())"
    and "snd (snd (with_write cs flds b s)) = snd (snd (b s))"
proof -
  have total: "\<exists>us. collect_changes cs' i new old = Returns us"
    if "list_all2 (\<lambda>c v. to_bytes c v \<noteq> None) cs' new" for cs' i new old
    using that
  proof (induction cs' i new old rule: collect_changes.induct)
    case (1 c cs i new news old olds)
    then show ?case by (auto simp: and_then_Returns_iff)
  qed auto
  let ?g = "guard_deref_mut (\<lambda>_. flds (fst (b s))) (controller_write \<lparr>ctl_state = flds s\<rparr>)"
  obtain us where us: "collect_changes cs 0 (flds (fst (b s))) (flds s) = Returns us"
    using total [OF assms(4)] by blast
  then have drop: "guard_drop cs ?g = Returns (if us = [] then None else Some us)"
    by (simp add: guard_drop_def guard_deref_mut_def controller_write_def)
  have "apply_changes cs (flds s) us = (flds (fst (b s)), Inr ())"
    by (rule collect_changes_apply [OF assms(1,3,2) us])
  then show "apply_changes cs (flds s) (concat (sent_batches (fst (snd (with_write cs flds b s)))))
      = (flds (fst (b s)), Inr ())"
    using drop assms(5) by (auto simp: with_write_def split_beta Let_def sends_nothing_def)
  show "snd (snd (with_write cs flds b s)) = snd (snd (b s))"
    using drop by (simp add: with_write_def split_beta Let_def)
qed

text \<open>A body that panics before it changes anything has no effect.\<close>

lemma collect_changes_same: "collect_changes cs i x x = Returns []"
proof (induction cs arbitrary: i x)
  case (Cons c cs)
  then show ?case by (cases x) simp_all
qed simp

lemma with_write_panic: "b s = (s, [], Panics) \<Longrightarrow> with_write cs flds b s = (s, [], Panics)"
  by (simp add: with_write_def guard_drop_def guard_deref_mut_def controller_write_def collect_changes_same)

section \<open>The contract of a service\<close>

text \<open>
  What a service promises about its state: when its libraries are lawful, applying what a call
  sends to the fields before the call gives the fields after it.
\<close>

locale state_service =
  fixes lawful :: bool and codecs :: "'v rkyv list" and flds :: "'s \<Rightarrow> 'v list"
    and call :: "'c \<Rightarrow> ('s, 'r) body"
  assumes call_sends: "lawful \<Longrightarrow>
      apply_changes codecs (flds s) (concat (sent_batches (fst (snd (call c s))))) = (flds (fst (call c s)), Inr ())"
begin

lemma serve_sends:
  "lawful \<Longrightarrow> serve call calls s = (s', out, rs) \<Longrightarrow>
     apply_changes codecs (flds s) (concat (sent_batches out)) = (flds s', Inr ())"
proof (induction calls arbitrary: s out rs)
  case (Cons c calls)
  from Cons.prems(2) show ?case
  proof (rule serve_ConsE)
    fix s1 out1 r outs rs1
    assume c: "call c s = (s1, out1, r)" and r: "serve call calls s1 = (s', outs, rs1)" and out: "out = out1 @ outs"
    have "apply_changes codecs (flds s) (concat (sent_batches out1)) = (flds s1, Inr ())"
      using call_sends [of s c] Cons.prems(1) c by simp
    then show ?thesis using Cons.IH [OF Cons.prems(1) r] out by (simp add: apply_changes_append)
  qed
qed simp

text \<open>A client that applies the batches in the order they were made follows the service.\<close>

lemma client_follows:
  assumes "lawful" "serve call calls s = (s', out, rs)"
  shows "apply_batches codecs (flds s) (sent_batches out) = flds s'"
  using generated_state.fold_batches_concat [OF serve_sends [OF assms]] by (simp add: apply_batches_fold)

end

text \<open>
  The contract from its parts: serializers that round-trip and serialize every field, and calls
  that take the write guard around a body that leaves the sending to it, or only the read guard.
\<close>

locale guarded_service =
  fixes lawful :: bool and codecs :: "'v rkyv list" and flds :: "'s \<Rightarrow> 'v list"
    and call :: "'c \<Rightarrow> ('s, 'r) body"
  assumes codecs_law: "lawful \<Longrightarrow> list_all rkyv_law codecs"
    and codecs_length: "length (flds s) = length codecs"
    and codecs_total: "lawful \<Longrightarrow> list_all2 (\<lambda>c v. to_bytes c v \<noteq> None) codecs (flds s)"
    and call_guarded: "(\<exists>b. sends_nothing b \<and> call c = with_write codecs flds b) \<or> (\<exists>f. call c = with_read f)"
begin

lemma write_sends:
  assumes "lawful" "sends_nothing b"
  shows "apply_changes codecs (flds s) (concat (sent_batches (fst (snd (with_write codecs flds b s)))))
      = (flds (fst (b s)), Inr ())"
    and "snd (snd (with_write codecs flds b s)) = snd (snd (b s))"
  by (rule with_write_sends [OF codecs_law [OF assms(1)] codecs_length codecs_length codecs_total [OF assms(1)] assms(2)])+

end

sublocale guarded_service \<subseteq> state_service
proof unfold_locales
  fix s c
  assume "lawful"
  consider b where "sends_nothing b" "call c = with_write codecs flds b" | f where "call c = with_read f"
    using call_guarded [of c] by blast
  then show "apply_changes codecs (flds s) (concat (sent_batches (fst (snd (call c s)))))
    = (flds (fst (call c s)), Inr ())"
    by cases (simp_all add: write_sends \<open>lawful\<close> with_read_def)
qed

section \<open>Fields of different types\<close>

text \<open>
  The values of a struct's fields are the variants of one type: \<open>con\<close> makes a variant, \<open>des\<close>
  takes it apart, and the serializer of the field's type works inside.
\<close>

definition field_codec :: "('a \<Rightarrow> 'v) \<Rightarrow> ('v \<Rightarrow> 'a option) \<Rightarrow> 'a rkyv \<Rightarrow> 'v rkyv" where
  "field_codec con des K =
     \<lparr>to_bytes = (\<lambda>v. case des v of None \<Rightarrow> None | Some a \<Rightarrow> to_bytes K a),
      from_bytes = (\<lambda>b. map_option con (from_bytes K b))\<rparr>"

lemma field_codec_law:
  assumes "rkyv_law K" "\<And>v a. des v = Some a \<Longrightarrow> v = con a"
  shows "rkyv_law (field_codec con des K)"
  using assms by (auto simp: field_codec_def rkyv_law_def split: option.splits)

lemma field_codec_to_bytes: "des v = Some a \<Longrightarrow> to_bytes (field_codec con des K) v = to_bytes K a"
  by (simp add: field_codec_def)

end
