(* ===== verification/HL_Node.thy ===== *)
theory HL_Node
  imports HL_Service HL_Pubsub
begin

text \<open>
  A server with a service: the application's state of every connection beside the connection
  handlers, the event switch and their channels. A call of a service method changes the state of its
  connection and hands its notifications and events to the channels; the rest of the server takes
  its steps in between.
\<close>

section \<open>Which topics a connection is subscribed to\<close>

text \<open>The topics wanted after a list of notifications, and the handler that reads them.\<close>

fun topics_after :: "proxied_notification list \<Rightarrow> topic set \<Rightarrow> topic set" where
  "topics_after [] S = S"
| "topics_after (PxSubscribe t # ns) S = topics_after ns (insert t S)"
| "topics_after (PxUnsubscribe t # ns) S = topics_after ns (S - {t})"

lemma topics_after_append: "topics_after (ns @ ms) S = topics_after ms (topics_after ns S)"
  by (induction ns S rule: topics_after.induct) auto

fun proxied_run :: "conn_env list \<Rightarrow> proxied_notification list \<Rightarrow> conn \<Rightarrow> conn" where
  "proxied_run (env # envs) (n # ns) c = proxied_run envs ns (fst (on_subscription_notification env n c))"
| "proxied_run _ _ c = c"

lemma subscription_topics:
  assumes "switch_ok env"
  shows "topics_after ns (dom (subscriptions (fst (on_subscription_notification env n c))))
    = topics_after (n # ns) (dom (subscriptions c))"
proof (cases n)
  case (PxSubscribe t)
  then show ?thesis using assms by (cases "subscriptions c t") (auto simp: Let_def insert_absorb domIff)
next
  case (PxUnsubscribe t)
  then show ?thesis using assms by (cases "subscriptions c t") (auto simp: Let_def domIff)
qed

lemma proxied_run_topics:
  assumes "length envs = length ns" "\<forall>env \<in> set envs. switch_ok env"
  shows "dom (subscriptions (proxied_run envs ns c)) = topics_after ns (dom (subscriptions c))"
  using assms
proof (induction envs ns arbitrary: c rule: list_induct2)
  case (Cons env envs n ns)
  then show ?case using subscription_topics [of env ns n c] by simp
qed simp

section \<open>The server with its service\<close>

record 's node =
  nd_hub :: hub
  nd_state :: "event_sender \<Rightarrow> 's"

definition node_new :: "(event_sender \<Rightarrow> nat) \<Rightarrow> 's \<Rightarrow> 's node" where
  "node_new level dflt = \<lparr>nd_hub = hub_new level, nd_state = (\<lambda>k. dflt)\<rparr>"

text \<open>What a method hands over goes to the end of its connection's channel and of the event channel.\<close>

definition hub_call :: "event_sender \<Rightarrow> service_effect list \<Rightarrow> hub \<Rightarrow> hub" where
  "hub_call k out h = h\<lparr>hub_proxied := (hub_proxied h)(k := hub_proxied h k @ notified out),
     hub_events := hub_events h @ emitted out\<rparr>"

text \<open>
  A call of any connection; a connection handler takes a notification (the switch's channel is open
  as long as the switch runs); any other step of the server, which leaves these channels alone.
\<close>

inductive node_step ::
  "('enc, 'dec) hl_lib \<Rightarrow> (subscribers \<Rightarrow> subscribers) \<Rightarrow> ('c \<Rightarrow> ('s, 'r) body) \<Rightarrow> 's node \<Rightarrow> 's node \<Rightarrow> bool"
  for L :: "('enc, 'dec) hl_lib" and iter :: "subscribers \<Rightarrow> subscribers" and call :: "'c \<Rightarrow> ('s, 'r) body" where
  node_call: "call c (nd_state n k) = (s', out, r) \<Longrightarrow>
     node_step L iter call n (n\<lparr>nd_state := (nd_state n)(k := s'), nd_hub := hub_call k out (nd_hub n)\<rparr>)"
| node_subscription: "hub_proxied (nd_hub n) k = px # pxs \<Longrightarrow> fresh_id (nd_hub n) px (rand_id env) \<Longrightarrow> switch_ok env \<Longrightarrow>
     conn_step L env (Proxied px) (hub_conns (nd_hub n) k) = Returns (c', out) \<Longrightarrow>
     node_step L iter call n (n\<lparr>nd_hub := (nd_hub n)\<lparr>hub_conns := (hub_conns (nd_hub n))(k := c'),
       hub_proxied := (hub_proxied (nd_hub n))(k := pxs), hub_queue := hub_queue (nd_hub n) @ switch_sends out\<rparr>\<rparr>)"
| node_other: "hub_step L iter (nd_hub n) h' \<Longrightarrow> hub_proxied h' = hub_proxied (nd_hub n) \<Longrightarrow>
     node_step L iter call n (n\<lparr>nd_hub := h'\<rparr>)"

definition node_reach ::
  "('enc, 'dec) hl_lib \<Rightarrow> (subscribers \<Rightarrow> subscribers) \<Rightarrow> ('c \<Rightarrow> ('s, 'r) body) \<Rightarrow> 's node \<Rightarrow> 's node \<Rightarrow> bool" where
  "node_reach L iter call = reachable (node_step L iter call)"

lemma node_reach_refl: "node_reach L iter call n n"
  unfolding node_reach_def by (rule reachable_refl)

lemma node_reach_trans: "node_reach L iter call n0 n1 \<Longrightarrow> node_reach L iter call n1 n2 \<Longrightarrow> node_reach L iter call n0 n2"
  unfolding node_reach_def by (rule reachable_trans)

section \<open>Runs of the server underneath\<close>

lemma hub_reach_trans: "hub_reach L iter h0 h1 \<Longrightarrow> hub_reach L iter h1 h2 \<Longrightarrow> hub_reach L iter h0 h2"
  unfolding hub_reach_def by (rule reachable_trans)

lemma hub_reach_step: "hub_step L iter h h' \<Longrightarrow> hub_reach L iter h h'"
  by (rule hub_more [OF hub_refl])

lemma hub_reach_notified:
  "hub_reach L iter h (h\<lparr>hub_proxied := (hub_proxied h)(k := hub_proxied h k @ ns)\<rparr>)"
proof (induction ns rule: rev_induct)
  case Nil
  then show ?case by (simp add: hub_refl)
next
  case (snoc n ns)
  let ?h = "h\<lparr>hub_proxied := (hub_proxied h)(k := hub_proxied h k @ ns)\<rparr>"
  let ?h' = "h\<lparr>hub_proxied := (hub_proxied h)(k := hub_proxied h k @ ns @ [n])\<rparr>"
  have "hub_step L iter ?h ?h'"
  proof (cases n)
    case (PxSubscribe t)
    then show ?thesis using hub_add [of t ?h k "hub_proxied h k @ ns @ [n]" L iter] by (simp add: manager_add_def)
  next
    case (PxUnsubscribe t)
    then show ?thesis using hub_remove [of t ?h k "hub_proxied h k @ ns @ [n]" L iter] by (simp add: manager_remove_def)
  qed
  then show ?case by (rule hub_more [OF snoc.IH])
qed

lemma hub_reach_emitted: "hub_reach L iter h (h\<lparr>hub_events := hub_events h @ evs\<rparr>)"
proof (induction evs rule: rev_induct)
  case Nil
  then show ?case by (simp add: hub_refl)
next
  case (snoc ev evs)
  have "hub_step L iter (h\<lparr>hub_events := hub_events h @ evs\<rparr>) (h\<lparr>hub_events := hub_events h @ evs @ [ev]\<rparr>)"
    using hub_emit [of L iter "h\<lparr>hub_events := hub_events h @ evs\<rparr>" "ev_topic ev" "ev_payload ev"]
    by (cases ev) (simp add: emit_def event_new_def)
  then show ?case by (rule hub_more [OF snoc.IH])
qed

lemma hub_reach_call: "hub_reach L iter h (hub_call k out h)"
  using hub_reach_trans [OF hub_reach_notified hub_reach_emitted, of L iter h k "notified out" "emitted out"]
  by (simp add: hub_call_def)

lemma node_step_hub: "node_step L iter call n n' \<Longrightarrow> hub_reach L iter (nd_hub n) (nd_hub n')"
proof (induction rule: node_step.induct)
  case (node_subscription n k px pxs env c' out)
  from hub_reach_step [OF hub_subscription [OF node_subscription(1,2,4)]] show ?case by simp
qed (simp_all add: hub_reach_call hub_reach_step)

lemma node_reach_hub: "node_reach L iter call n0 n \<Longrightarrow> hub_reach L iter (nd_hub n0) (nd_hub n)"
  unfolding node_reach_def
  by (induction rule: reachable.induct) (auto intro: hub_refl hub_reach_trans node_step_hub)

text \<open>A step that leaves the notification channels alone leaves the subscriptions alone.\<close>

lemma hub_step_same_subscriptions:
  "hub_step L iter h h' \<Longrightarrow> hub_proxied h' = hub_proxied h \<Longrightarrow>
   subscriptions (hub_conns h' k) = subscriptions (hub_conns h k)"
proof (induction rule: hub_step.induct)
  case (hub_add t h k' ch)
  then show ?case by (auto simp: manager_add_def fun_upd_idem_iff)
next
  case (hub_remove t h k' ch)
  then show ?case by (auto simp: manager_remove_def fun_upd_idem_iff)
next
  case (hub_subscription h k' n ns env c' out)
  have "hub_proxied h k' = ns" using fun_cong [OF hub_subscription.prems, of k'] by simp
  with hub_subscription.hyps(1) show ?case by simp
next
  case (hub_deliver h k' ev evs env c' out)
  then show ?case using conn_step_subscriptions [OF hub_deliver(2)] by simp
next
  case (hub_other inp m us w env h k' c' out)
  then show ?case using conn_step_subscriptions [OF hub_other(2)] by auto
qed auto

section \<open>The contract of a service that subscribes\<close>

text \<open>Every connection, once it has read its notifications, has the topics its state wants.\<close>

definition follows :: "('s \<Rightarrow> topic set) \<Rightarrow> 's node \<Rightarrow> bool" where
  "follows wanted n \<longleftrightarrow>
     (\<forall>k. topics_after (hub_proxied (nd_hub n) k) (dom (subscriptions (hub_conns (nd_hub n) k))) = wanted (nd_state n k))"

lemma followsD:
  "follows wanted n \<Longrightarrow> topics_after (hub_proxied (nd_hub n) k) (dom (subscriptions (hub_conns (nd_hub n) k))) = wanted (nd_state n k)"
  by (simp add: follows_def)

text \<open>
  \<open>wanted s\<close>: the topics the connection of a service in state \<open>s\<close> is to be subscribed to. What a
  call notifies leads from the topics wanted before it to those wanted after it.
\<close>

locale topic_service =
  fixes call :: "'c \<Rightarrow> ('s, 'r) body" and wanted :: "'s \<Rightarrow> topic set"
  assumes call_wanted: "call c s = (s', out, r) \<Longrightarrow> topics_after (notified out) (wanted s) = wanted s'"
begin

lemma serve_wanted: "serve call calls s = (s', out, rs) \<Longrightarrow> topics_after (notified out) (wanted s) = wanted s'"
proof (induction calls arbitrary: s out rs)
  case (Cons c calls)
  from Cons.prems obtain s1 out1 r outs rs1 where "call c s = (s1, out1, r)"
    "serve call calls s1 = (s', outs, rs1)" "out = out1 @ outs" by (rule serve_ConsE)
  then show ?case using Cons.IH call_wanted by (simp add: topics_after_append)
qed simp

lemma follows_step: "node_step L iter call n n' \<Longrightarrow> follows wanted n \<Longrightarrow> follows wanted n'"
proof (induction rule: node_step.induct)
  case (node_call c n k s' out r)
  then show ?case using call_wanted by (auto simp: follows_def hub_call_def topics_after_append)
next
  case (node_subscription n k px pxs env c' out)
  have "c' = fst (on_subscription_notification env px (hub_conns (nd_hub n) k))"
    using node_subscription.hyps(4) by auto
  then have "topics_after pxs (dom (subscriptions c')) = topics_after (px # pxs) (dom (subscriptions (hub_conns (nd_hub n) k)))"
    using subscription_topics [OF node_subscription.hyps(3)] by simp
  then have "topics_after pxs (dom (subscriptions c')) = wanted (nd_state n k)"
    using followsD [OF node_subscription.prems, of k] node_subscription.hyps(1) by simp
  then show ?case using node_subscription.prems by (simp add: follows_def)
next
  case (node_other n h')
  then show ?case using hub_step_same_subscriptions [OF node_other.hyps] by (simp add: follows_def)
qed

lemma follows_reach:
  assumes "node_reach L iter call (node_new level dflt) n" "wanted dflt = {}"
  shows "follows wanted n"
  using assms(1) unfolding node_reach_def
proof (induction rule: reachable.induct)
  case reachable_refl
  then show ?case using assms(2) by (simp add: follows_def node_new_def hub_new_def conn_new_def)
next
  case (reachable_step n n')
  then show ?case using follows_step by blast
qed

text \<open>
  In a reachable state in which the notifications are handled, an event is delivered once to each
  connection whose state wants its topic, and to no other.
\<close>

lemma event_to_wanting:
  assumes "iter_law iter" "node_reach L iter call (node_new level dflt) n" "wanted dflt = {}"
    and "hub_queue (nd_hub n) = []" "hub_proxied (nd_hub n) k = []"
    and "switch_step iter (\<lambda>k. True) (SwEvent ev) (hub_switch (nd_hub n)) = (sw', outs)"
  shows "deliveries_to k outs = (if ev_topic ev \<in> wanted (nd_state n k) then [ev] else [])"
proof -
  have "hub_reach L iter (hub_new level) (nd_hub n)"
    using node_reach_hub [OF assms(2)] by (simp add: node_new_def)
  from event_deliveries [OF assms(1) this assms(4,6)]
  have "deliveries_to k outs = (if ev_topic ev \<in> dom (subscriptions (hub_conns (nd_hub n) k)) then [ev] else [])"
    by (simp add: domIff)
  moreover have "dom (subscriptions (hub_conns (nd_hub n) k)) = wanted (nd_state n k)"
    using followsD [OF follows_reach [OF assms(2,3)], of k] assms(5) by simp
  ultimately show ?thesis by simp
qed

text \<open>
  From there on the switch passes the events it takes to a connection that stays alive, those on the
  topics its state wants, once and in order, whatever notifications of others it handles in between.
\<close>

lemma events_to_wanting:
  assumes "iter_law iter" "node_reach L iter call (node_new level dflt) n" "wanted dflt = {}"
    and "hub_queue (nd_hub n) = []" "hub_proxied (nd_hub n) k = []"
    and "\<forall>p \<in> set ins. fst p k" "\<forall>x \<in> set (notifications ins). foreign (hub_switch (nd_hub n)) k x"
  shows "deliveries_to k (snd (switch_run iter ins (hub_switch (nd_hub n))))
    = filter (\<lambda>e. ev_topic e \<in> wanted (nd_state n k)) (events_of ins)"
proof -
  have "hub_reach L iter (hub_new level) (nd_hub n)"
    using node_reach_hub [OF assms(2)] by (simp add: node_new_def)
  then have inv: "hub_inv (nd_hub n)" by (rule hub_reach_inv [OF assms(1)])
  have "dom (subscriptions (hub_conns (nd_hub n) k)) = wanted (nd_state n k)"
    using followsD [OF follows_reach [OF assms(2,3)], of k] assms(5) by simp
  then have own: "owned_by (hub_switch (nd_hub n)) k t \<noteq> {} \<longleftrightarrow> t \<in> wanted (nd_state n k)"
    and one: "card (owned_by (hub_switch (nd_hub n)) k t) \<le> 1" for t
    using owned_when_drained [OF inv assms(4), of k t] by (auto simp: domIff split: option.splits)
  show ?thesis
    using switch_run_deliveries [OF assms(1) hub_invD(1) [OF inv] _ assms(6,7)] one by (simp add: own)
qed

end

text \<open>A service that never notifies wants no topic.\<close>

definition quiet_service :: "('c \<Rightarrow> ('s, 'r) body) \<Rightarrow> bool" where
  "quiet_service call \<longleftrightarrow> (\<forall>c s. notified (fst (snd (call c s))) = [])"

lemma quiet_topic_service: "quiet_service call \<Longrightarrow> topic_service call (\<lambda>s. {})"
  by unfold_locales (metis fst_conv quiet_service_def snd_conv topics_after.simps(1))

end
