(* ===== verification/HL_Counter.thy ===== *)
theory HL_Counter
  imports HL_Node HL_Demo
begin

text \<open>
  The counter service (\<open>examples/counter.rs\<close>): each connection has a counter and a topic; changes of
  the counter are announced as events on the topic, and the connection is subscribed to it. Also
  the application's answer to topic notifications and the client's wait for its topic.
\<close>

section \<open>Data\<close>

datatype counter_event =
    Incremented u32 u32
  | Decremented u32 u32
  | ServerSentTest

record counter_state =
  counter :: u32
  ctopic :: topic

definition counter_default :: counter_state where
  "counter_default = \<lparr>counter = 0, ctopic = topic_default\<rparr>"

text \<open>The serializers of the types involved, and the fields of the state struct.\<close>

record counter_libs =
  k_u32 :: "u32 rkyv"
  k_topic :: "topic rkyv"
  k_event :: "counter_event rkyv"

datatype counter_value = CvU32 u32 | CvTopic topic

fun cv_u32 :: "counter_value \<Rightarrow> u32 option" where
  "cv_u32 (CvU32 n) = Some n"
| "cv_u32 _ = None"

fun cv_topic :: "counter_value \<Rightarrow> topic option" where
  "cv_topic (CvTopic t) = Some t"
| "cv_topic _ = None"

definition counter_codecs :: "counter_libs \<Rightarrow> counter_value rkyv list" where
  "counter_codecs K = [field_codec CvU32 cv_u32 (k_u32 K), field_codec CvTopic cv_topic (k_topic K)]"

definition counter_fields :: "counter_state \<Rightarrow> counter_value list" where
  "counter_fields s = [CvU32 (counter s), CvTopic (ctopic s)]"

text \<open>Round trips, and that numbers, topics and events always serialize.\<close>

definition counter_law :: "counter_libs \<Rightarrow> bool" where
  [lib_laws]: "counter_law K \<longleftrightarrow> rkyv_law (k_u32 K) \<and> rkyv_law (k_topic K) \<and> rkyv_law (k_event K)
     \<and> (\<forall>n. to_bytes (k_u32 K) n \<noteq> None) \<and> (\<forall>t. to_bytes (k_topic K) t \<noteq> None)
     \<and> (\<forall>e. to_bytes (k_event K) e \<noteq> None)"

section \<open>The methods\<close>

datatype counter_call = NewCounter u8 | Increment u32 | Decrement u32 | Get

datatype counter_reply = Done | Value u32

text \<open>\<open>NewCounter\<close> carries the random byte drawn; \<open>open\<close>: the connection's receiver exists.\<close>

definition new_counter :: "bool \<Rightarrow> u8 \<Rightarrow> (counter_state, counter_reply handler_result) body" where
  "new_counter open random s =
     (case manager_remove open (ctopic s) [] of
        Panics \<Rightarrow> (s, [], Panics)
      | Returns ns \<Rightarrow>
          (let s' = s\<lparr>ctopic := topic_of_vec [random], counter := 0\<rparr>
           in case manager_add open (ctopic s') [] of
                Panics \<Rightarrow> (s', map Notify ns, Panics)
              | Returns ms \<Rightarrow> (s', map Notify (ns @ ms), Returns (Inr Done))))"

text \<open>The end of both updates: store the value, make the event, emit it.\<close>

definition publish ::
  "counter_libs \<Rightarrow> bool \<Rightarrow> u32 \<Rightarrow> counter_event \<Rightarrow> (counter_state, counter_reply handler_result) body" where
  "publish K open new event s =
     (let s' = s\<lparr>counter := new\<rparr>
      in case codable_into (k_event K) event of
           Panics \<Rightarrow> (s', [], Panics)
         | Returns payload \<Rightarrow> (s', map Emit (emit open (ctopic s') payload []), Returns (Inr Done)))"

definition increment ::
  "counter_libs \<Rightarrow> bool \<Rightarrow> bool \<Rightarrow> u32 \<Rightarrow> (counter_state, counter_reply handler_result) body" where
  "increment K checks open amount s =
     (case word_add checks (counter s) amount of
        Panics \<Rightarrow> (s, [], Panics)
      | Returns new \<Rightarrow> publish K open new (Incremented new (counter s)) s)"

definition decrement ::
  "counter_libs \<Rightarrow> bool \<Rightarrow> bool \<Rightarrow> u32 \<Rightarrow> (counter_state, counter_reply handler_result) body" where
  "decrement K checks open amount s =
     (case word_sub checks (counter s) amount of
        Panics \<Rightarrow> (s, [], Panics)
      | Returns new \<Rightarrow> publish K open new (Decremented new (counter s)) s)"

definition counter_get :: "counter_state \<Rightarrow> counter_reply handler_result outcome" where
  "counter_get s = Returns (Inr (Value (counter s)))"

fun counter_serves ::
  "counter_libs \<Rightarrow> bool \<Rightarrow> bool \<Rightarrow> counter_call \<Rightarrow> (counter_state, counter_reply handler_result) body" where
  "counter_serves K checks open (NewCounter random) =
     with_write (counter_codecs K) counter_fields (new_counter open random)"
| "counter_serves K checks open (Increment amount) =
     with_write (counter_codecs K) counter_fields (increment K checks open amount)"
| "counter_serves K checks open (Decrement amount) =
     with_write (counter_codecs K) counter_fields (decrement K checks open amount)"
| "counter_serves K checks open Get = with_read counter_get"

section \<open>The application around the service\<close>

text \<open>The task that reads topic notifications: a new topic gets a test event.\<close>

fun on_topic_notification :: "counter_libs \<Rightarrow> bool \<Rightarrow> topic_notification \<Rightarrow> event list outcome" where
  "on_topic_notification K open (Created t) =
     and_then (codable_into (k_event K) ServerSentTest) (\<lambda>payload. Returns (emit open t payload []))"
| "on_topic_notification K open (Removed t) = Returns []"

text \<open>
  The client's loop: read the state's topic until it is not empty. \<open>obs n\<close> is the topic the n-th
  read gives; a loop that never ends is \<open>None\<close>.
\<close>

partial_function (option) wait_topic :: "(nat \<Rightarrow> topic) \<Rightarrow> nat \<Rightarrow> topic option" where
  "wait_topic obs n = (if topic_as_bytes (obs n) = [] then wait_topic obs (Suc n) else Some (obs n))"

text \<open>What the client's event task makes of an event: its topic and the decoded payload.\<close>

definition receive_event :: "counter_libs \<Rightarrow> event \<Rightarrow> (topic \<times> counter_event) outcome" where
  "receive_event K ev = and_then (codable_from (k_event K) (ev_payload ev)) (\<lambda>e. Returns (ev_topic ev, e))"


text \<open>The calls the example's client makes; \<open>random\<close> is the byte the server draws.\<close>

definition counter_script :: "u8 \<Rightarrow> counter_call list" where
  "counter_script random = [NewCounter random, Increment 1, Decrement 1, Get]"

section \<open>The service keeps the contract of \<open>state_service\<close>\<close>

lemma publish_quiet: "sent_batches (fst (snd (publish K open new event s))) = []"
  by (simp add: publish_def emit_def Let_def split: outcome.split)

lemma counter_sends_nothing:
  "sends_nothing (new_counter open random)" "sends_nothing (increment K checks open amount)"
  "sends_nothing (decrement K checks open amount)"
  by (auto simp: sends_nothing_def new_counter_def manager_add_def manager_remove_def increment_def
      decrement_def publish_quiet Let_def split: outcome.split)

interpretation counter_service: guarded_service "counter_law K" "counter_codecs K" counter_fields "counter_serves K checks open"
  for K checks "open"
proof unfold_locales
  show "list_all rkyv_law (counter_codecs K)" if "counter_law K"
    using that by (auto simp: counter_law_def counter_codecs_def intro!: field_codec_law elim: cv_u32.elims cv_topic.elims)
  show "list_all2 (\<lambda>c v. to_bytes c v \<noteq> None) (counter_codecs K) (counter_fields s)" if "counter_law K" for s
    using that by (simp add: counter_law_def counter_codecs_def counter_fields_def field_codec_to_bytes)
  show "(\<exists>b. sends_nothing b \<and> counter_serves K checks open c = with_write (counter_codecs K) counter_fields b)
      \<or> (\<exists>f. counter_serves K checks open c = with_read f)" for c
    by (cases c) (auto intro: counter_sends_nothing)
qed (simp add: counter_codecs_def counter_fields_def)

section \<open>Subscriptions of a counter's connection\<close>

fun is_new :: "counter_call \<Rightarrow> bool" where
  "is_new (NewCounter r) = True"
| "is_new _ = False"

lemma publish_state:
  "ctopic (fst (publish K open new event s)) = ctopic s" "notified (fst (snd (publish K open new event s))) = []"
  "counter (fst (publish K open new event s)) = new"
  by (auto simp: publish_def emit_def Let_def split: outcome.split)

lemma counter_call_topics:
  assumes "S \<subseteq> {ctopic s}"
  shows "topics_after (notified (fst (snd (counter_serves K checks True c s)))) S
    = (if is_new c then {ctopic (fst (counter_serves K checks True c s))} else S)"
    and "\<not> is_new c \<Longrightarrow> ctopic (fst (counter_serves K checks True c s)) = ctopic s"
  using assms
  by (cases c; auto simp: new_counter_def manager_add_def manager_remove_def increment_def decrement_def
      publish_state with_read_def Let_def split: outcome.split)+

lemma counter_serve_topics:
  assumes "serve (counter_serves K checks True) calls s = (s', out, rs)" "S \<subseteq> {ctopic s}"
  shows "topics_after (notified out) S = (if list_ex is_new calls then {ctopic s'} else S)
    \<and> (\<not> list_ex is_new calls \<longrightarrow> ctopic s' = ctopic s)"
  using assms
proof (induction calls arbitrary: s S out rs)
  case (Cons c calls)
  from Cons.prems(1) obtain s1 out1 r1 outs rs2 where c: "counter_serves K checks True c s = (s1, out1, r1)"
    and r: "serve (counter_serves K checks True) calls s1 = (s', outs, rs2)" and out: "out = out1 @ outs"
    by (rule serve_ConsE)
  have S: "topics_after (notified out1) S = (if is_new c then {ctopic s1} else S)"
    "\<not> is_new c \<Longrightarrow> ctopic s1 = ctopic s"
    using counter_call_topics [OF Cons.prems(2), where K = K and checks = checks and c = c] c by simp_all
  then have "topics_after (notified out1) S \<subseteq> {ctopic s1}" using Cons.prems(2) by auto
  from Cons.IH [OF r this] show ?case
    using S out by (auto simp: topics_after_append)
qed simp


section \<open>The wait for a topic\<close>

lemma wait_topic_returns:
  assumes "topic_as_bytes (obs m) \<noteq> []" "n \<le> m"
  shows "\<exists>k \<ge> n. k \<le> m \<and> wait_topic obs n = Some (obs k) \<and> topic_as_bytes (obs k) \<noteq> []
    \<and> (\<forall>j. n \<le> j \<longrightarrow> j < k \<longrightarrow> topic_as_bytes (obs j) = [])"
  using assms(2)
proof (induction n rule: inc_induct)
  case base
  then show ?case using assms(1) by (auto simp: wait_topic.simps [of obs m])
next
  case (step n)
  show ?case
  proof (cases "topic_as_bytes (obs n) = []")
    case True
    from step.IH obtain k where k: "Suc n \<le> k" "k \<le> m" "wait_topic obs (Suc n) = Some (obs k)"
      "topic_as_bytes (obs k) \<noteq> []" "\<forall>j. Suc n \<le> j \<longrightarrow> j < k \<longrightarrow> topic_as_bytes (obs j) = []" by blast
    then have "\<forall>j. n \<le> j \<longrightarrow> j < k \<longrightarrow> topic_as_bytes (obs j) = []"
      using True by (metis Suc_leI le_neq_implies_less)
    then show ?thesis using k True by (intro exI [of _ k]) (simp add: wait_topic.simps [of obs n])
  next
    case False
    then show ?thesis using step.hyps by (intro exI [of _ n]) (simp add: wait_topic.simps [of obs n])
  qed
qed

lemma wait_topic_SomeD:
  "wait_topic obs n = Some t \<Longrightarrow> \<exists>k. t = obs k \<and> topic_as_bytes t \<noteq> []"
proof (erule wait_topic.raw_induct [rotated])
  fix wait obs n t
  assume "\<And>obs n t. wait obs n = Some t \<Longrightarrow> \<exists>k. t = obs k \<and> topic_as_bytes t \<noteq> []"
    and "(if topic_as_bytes (obs n) = [] then wait obs (Suc n) else Some (obs n)) = Some t"
  then show "\<exists>k. t = obs k \<and> topic_as_bytes t \<noteq> []" by (auto split: if_splits)
qed

text \<open>After \<open>new_counter\<close> the topic is one byte, so it is never empty again.\<close>

lemma counter_serve_topic_byte:
  "serve (counter_serves K checks True) calls s = (s', out, rs) \<Longrightarrow>
   list_ex is_new calls \<or> (\<exists>r. ctopic s = topic_of_vec [r]) \<Longrightarrow> \<exists>r. ctopic s' = topic_of_vec [r]"
proof (induction calls arbitrary: s out rs)
  case (Cons c calls)
  from Cons.prems(1) obtain s1 out1 r1 outs rs2 where c: "counter_serves K checks True c s = (s1, out1, r1)"
    and r: "serve (counter_serves K checks True) calls s1 = (s', outs, rs2)"
    by (rule serve_ConsE)
  have "ctopic s1 = (case c of NewCounter r \<Rightarrow> topic_of_vec [r] | _ \<Rightarrow> ctopic s)"
    using arg_cong [OF c, of "\<lambda>x. ctopic (fst x)"]
    by (cases c) (auto simp: new_counter_def manager_add_def manager_remove_def increment_def decrement_def
        publish_state with_read_def Let_def split: outcome.splits)
  then show ?case using Cons.IH [OF r] Cons.prems(2) by (cases c) auto
qed simp

text \<open>The topic a client reads from its copy of the state.\<close>

definition client_topic :: "counter_value list \<Rightarrow> topic" where
  "client_topic vs = (case vs ! 1 of CvTopic t \<Rightarrow> t | CvU32 n \<Rightarrow> topic_default)"

section \<open>The counter as an integer\<close>

text \<open>What a call does to an unbounded counter, and the event it announces.\<close>

fun spec_counter :: "counter_call \<Rightarrow> int \<Rightarrow> int" where
  "spec_counter (NewCounter r) n = 0"
| "spec_counter (Increment a) n = n + uint a"
| "spec_counter (Decrement a) n = n - uint a"
| "spec_counter Get n = n"

fun announced_change :: "counter_call \<Rightarrow> u32 \<Rightarrow> u32 \<Rightarrow> counter_event option" where
  "announced_change (Increment a) new old = Some (Incremented new old)"
| "announced_change (Decrement a) new old = Some (Decremented new old)"
| "announced_change _ new old = None"

lemma publish_event:
  assumes "counter_law K"
  shows "map (receive_event K) (emitted (fst (snd (publish K True new event s)))) = [Returns (ctopic s, event)]"
    and "snd (snd (publish K True new event s)) = Returns (Inr Done)"
proof -
  obtain b where "to_bytes (k_event K) event = Some b" using assms unfolding counter_law_def by blast
  moreover from this have "from_bytes (k_event K) b = Some event" using assms by (simp add: counter_law_def rkyv_lawD)
  ultimately show "map (receive_event K) (emitted (fst (snd (publish K True new event s)))) = [Returns (ctopic s, event)]"
    "snd (snd (publish K True new event s)) = Returns (Inr Done)"
    by (simp_all add: publish_def codable_into_def codable_from_def receive_event_def emit_def event_new_def Let_def)
qed

text \<open>A concrete instance: a tag and the numbers.\<close>

fun put_counter_event :: "counter_event \<Rightarrow> bytes" where
  "put_counter_event (Incremented a b) = 0 # put_u32 a @ put_u32 b"
| "put_counter_event (Decremented a b) = 1 # put_u32 a @ put_u32 b"
| "put_counter_event ServerSentTest = [2]"

fun get_counter_event :: "bytes \<Rightarrow> counter_event option" where
  "get_counter_event [] = None"
| "get_counter_event (k # r) =
     (if k = 2 then Some ServerSentTest
      else case (get_u32 (take 4 r), get_u32 (drop 4 r)) of
             (Some a, Some b) \<Rightarrow> Some (if k = 0 then Incremented a b else Decremented a b)
           | _ \<Rightarrow> None)"

definition demo_counter :: counter_libs where
  "demo_counter = \<lparr>k_u32 = u32_rkyv, k_topic = topic_rkyv,
     k_event = \<lparr>to_bytes = (\<lambda>e. Some (put_counter_event e)), from_bytes = get_counter_event\<rparr>\<rparr>"

lemma demo_counter_law: "counter_law demo_counter"
proof -
  have "get_counter_event (put_counter_event e) = Some e" for e by (cases e) simp_all
  then show ?thesis by (simp add: lib_laws demo_counter_def u32_rkyv_def topic_rkyv_def)
qed

text \<open>An update whose new value is \<open>new\<close> unless the arithmetic panics.\<close>

lemma counter_update_cases:
  assumes "counter_law K" "c = Increment a \<or> c = Decrement a"
  obtains (panic) "checks" "\<not> in_u32 (spec_counter c (uint (counter s)))"
      "counter_serves K checks True c s = (s, [], Panics)"
  | (update) new event where "checks \<longrightarrow> in_u32 (spec_counter c (uint (counter s)))"
      "uint new = spec_counter c (uint (counter s)) mod 4294967296"
      "announced_change c new (counter s) = Some event"
      "counter_serves K checks True c s = with_write (counter_codecs K) counter_fields (publish K True new event) s"
proof (cases "checks \<and> \<not> in_u32 (spec_counter c (uint (counter s)))")
  case True
  then have "counter_serves K checks True c s = (s, [], Panics)"
    using assms(2) by (auto simp: increment_def decrement_def word_add_u32 word_sub_u32 intro!: with_write_panic)
  with True show thesis using panic by blast
next
  case False
  have w: "b s = b' s \<Longrightarrow> with_write (counter_codecs K) counter_fields b s = with_write (counter_codecs K) counter_fields b' s"
    for b b' :: "(counter_state, counter_reply handler_result) body"
    by (simp add: with_write_def)
  from assms(2) show thesis
  proof
    assume c: "c = Increment a"
    show thesis
      by (rule update [of "counter s + a" "Incremented (counter s + a) (counter s)"])
        (use False c in \<open>auto simp: uint_arith_u32 increment_def word_add_u32 intro!: w\<close>)
  next
    assume c: "c = Decrement a"
    show thesis
      by (rule update [of "counter s - a" "Decremented (counter s - a) (counter s)"])
        (use False c in \<open>auto simp: uint_arith_u32 decrement_def word_sub_u32 intro!: w\<close>)
  qed
qed

lemma counter_script_gets_zero:
  "last (snd (snd (serve (counter_serves K checks True) (counter_script random) s))) = Returns (Inr (Value 0))"
  by (simp add: counter_script_def split_beta Let_def new_counter_def manager_add_def manager_remove_def
      increment_def decrement_def word_add_def word_sub_def publish_state with_read_def counter_get_def)

lemma publish_sends_nothing: "sends_nothing (publish K open new event)"
  by (simp add: sends_nothing_def publish_quiet)

lemma counter_call_refines:
  assumes "counter_law K" and "counter_serves K checks True c s = (s', out, r)"
  shows "(checks \<and> \<not> in_u32 (spec_counter c (uint (counter s))) \<longrightarrow> s' = s \<and> out = [] \<and> r = Panics)
    \<and> (checks \<and> in_u32 (spec_counter c (uint (counter s))) \<longrightarrow>
         r \<noteq> Panics \<and> uint (counter s') = spec_counter c (uint (counter s)))
    \<and> (\<not> checks \<longrightarrow> r \<noteq> Panics \<and> uint (counter s') = spec_counter c (uint (counter s)) mod 4294967296)
    \<and> (r \<noteq> Panics \<longrightarrow> map (receive_event K) (emitted out)
         = (case announced_change c (counter s') (counter s) of None \<Rightarrow> [] | Some e \<Rightarrow> [Returns (ctopic s', e)]))"
proof (cases "is_new c \<or> c = Get")
  case True
  have "in_u32 (uint (counter s))" "in_u32 0" using uint_u32_range by (auto simp: in_u32_def)
  moreover have "uint (counter s) mod 4294967296 = uint (counter s)" using uint_u32_range by (simp add: mod_pos_pos_trivial)
  moreover have "snd (snd (counter_serves K checks True c s)) \<noteq> Panics \<and> emitted (fst (snd (counter_serves K checks True c s))) = []
      \<and> uint (counter (fst (counter_serves K checks True c s))) = spec_counter c (uint (counter s))
      \<and> announced_change c (counter s') (counter s) = None"
    using True by (cases c) (auto simp: counter_service.write_sends(2) [OF assms(1) counter_sends_nothing(1)] new_counter_def
        manager_add_def manager_remove_def with_read_def counter_get_def Let_def)
  ultimately show ?thesis using assms(2) True by (cases c) (auto simp del: counter_serves.simps)
next
  case False
  then obtain a where "c = Increment a \<or> c = Decrement a" by (cases c) auto
  with assms(1) show ?thesis
  proof (cases rule: counter_update_cases [where checks = checks and s = s])
    case panic
    then show ?thesis using assms(2) by simp
  next
    case (update new event)
    let ?w = "with_write (counter_codecs K) counter_fields (publish K True new event) s"
    have "s' = fst ?w" "out = fst (snd ?w)" "r = snd (snd ?w)" using assms(2) update(4) by simp_all
    then have "counter s' = new" "ctopic s' = ctopic s" "r = Returns (Inr Done)"
      "map (receive_event K) (emitted out) = [Returns (ctopic s, event)]"
      using assms(1) by (simp_all add: publish_state publish_event counter_service.write_sends publish_sends_nothing)
    then show ?thesis using update by (auto simp: in_u32_def)
  qed
qed

text \<open>The topic of a counter once there is one; a counter's topic is never the default again.\<close>

definition counter_topics :: "counter_state \<Rightarrow> topic set" where
  "counter_topics s = (if ctopic s = topic_default then {} else {ctopic s})"

interpretation counter_node: topic_service "counter_serves K checks True" counter_topics for K checks
proof unfold_locales
  fix c s s' out r
  assume c: "counter_serves K checks True c s = (s', out, r)"
  have sub: "counter_topics s \<subseteq> {ctopic s}" by (simp add: counter_topics_def)
  have "topics_after (notified out) (counter_topics s) = (if is_new c then {ctopic s'} else counter_topics s)"
    "\<not> is_new c \<Longrightarrow> ctopic s' = ctopic s"
    using counter_call_topics [OF sub, where K = K and checks = checks and c = c] c by simp_all
  moreover have "ctopic s' \<noteq> topic_default" if new: "is_new c"
  proof -
    obtain b where b: "c = NewCounter b" using new by (cases c) simp_all
    have "ctopic (fst (counter_serves K checks True (NewCounter b) s)) = topic_of_vec [b]"
      by (simp add: new_counter_def manager_add_def manager_remove_def Let_def)
    then have "ctopic s' = topic_of_vec [b]" using c unfolding b by (simp del: counter_serves.simps)
    then show ?thesis by (simp add: topic_of_vec_def topic_default_def)
  qed
  ultimately show "topics_after (notified out) (counter_topics s) = counter_topics s'"
    by (auto simp: counter_topics_def)
qed

lemma counter_topics_default: "counter_topics counter_default = {}"
  by (simp add: counter_topics_def counter_default_def)

section \<open>Properties\<close>

text \<open>
  C18: the counter's arithmetic. With overflow checks a call refines unbounded integers: it panics,
  leaving state and channels alone, exactly when the result would leave the range of a \<open>u32\<close>, and
  otherwise stores the exact result. Without checks it never panics and the result is taken modulo
  the range. A change is announced by one event, which decodes to the new and the old value, on the
  connection's topic.
\<close>

theorem counter_refines_integer:
  assumes "counter_law K" and "counter_serves K checks True c s = (s', out, r)"
  shows "(checks \<and> \<not> in_u32 (spec_counter c (uint (counter s))) \<longrightarrow> s' = s \<and> out = [] \<and> r = Panics)
    \<and> (checks \<and> in_u32 (spec_counter c (uint (counter s))) \<longrightarrow>
         r \<noteq> Panics \<and> uint (counter s') = spec_counter c (uint (counter s)))
    \<and> (\<not> checks \<longrightarrow> r \<noteq> Panics \<and> uint (counter s') = spec_counter c (uint (counter s)) mod 4294967296)
    \<and> (r \<noteq> Panics \<longrightarrow> map (receive_event K) (emitted out)
         = (case announced_change c (counter s') (counter s) of None \<Rightarrow> [] | Some e \<Rightarrow> [Returns (ctopic s', e)]))"
  by (rule counter_call_refines [OF assms])

theorem counter_refines_integer_witness:
  "counter_serves demo_counter True True (Increment 5) \<lparr>counter = 4294967295, ctopic = topic_default\<rparr>
     = (\<lparr>counter = 4294967295, ctopic = topic_default\<rparr>, [], Panics)
   \<and> uint (counter (fst (counter_serves demo_counter False True (Increment 5) \<lparr>counter = 4294967295, ctopic = topic_default\<rparr>))) = 4"
proof -
  let ?s = "\<lparr>counter = 4294967295, ctopic = topic_default\<rparr>"
  obtain s1 o1 r1 where a: "counter_serves demo_counter True True (Increment 5) ?s = (s1, o1, r1)"
    by (cases "counter_serves demo_counter True True (Increment 5) ?s")
  obtain s2 o2 r2 where b: "counter_serves demo_counter False True (Increment 5) ?s = (s2, o2, r2)"
    by (cases "counter_serves demo_counter False True (Increment 5) ?s")
  have "\<not> in_u32 (spec_counter (Increment 5) (uint (counter ?s)))" by (simp add: in_u32_def)
  then show ?thesis
    using counter_refines_integer [OF demo_counter_law a] counter_refines_integer [OF demo_counter_law b] a b by simp
qed

text \<open>
  C35: whatever calls are made, a counter's connection ends up subscribed to the current topic of the
  counter and to nothing else; before the first \<open>new_counter\<close> it has no subscription.
\<close>

theorem counter_subscribed_to_its_topic:
  assumes "serve (counter_serves K checks True) calls counter_default = (s', out, rs)"
    and "length envs = length (notified out)" and "\<forall>env \<in> set envs. switch_ok env"
  shows "dom (subscriptions (proxied_run envs (notified out) (conn_new level tx)))
    = (if list_ex is_new calls then {ctopic s'} else {})"
  using counter_serve_topics [OF assms(1), of "{}"] proxied_run_topics [OF assms(2,3)]
  by (simp add: conn_new_def)

theorem counter_subscribed_to_its_topic_witness:
  "\<exists>s' out rs. serve (counter_serves demo_counter True True) [NewCounter 3, NewCounter 9] counter_default = (s', out, rs)
    \<and> dom (subscriptions (proxied_run (replicate (length (notified out)) env_ok) (notified out) (conn_new 6 0))) = {ctopic s'}"
proof -
  obtain s' out rs where r: "serve (counter_serves demo_counter True True) [NewCounter 3, NewCounter 9] counter_default = (s', out, rs)"
    by (cases "serve (counter_serves demo_counter True True) [NewCounter 3, NewCounter 9] counter_default")
  have "\<forall>env \<in> set (replicate (length (notified out)) env_ok). switch_ok env" by (simp add: env_ok_def)
  from counter_subscribed_to_its_topic [OF r _ this, of 6 0] show ?thesis using r by auto
qed

text \<open>
  The client's copy of the counter and its topic. Applying the batches the calls sent, in their
  order, turns a copy equal to the state before the calls into the state after them, also when
  some of the calls panicked.
\<close>

theorem counter_client_follows:
  assumes "counter_law K" and "serve (counter_serves K checks open) calls s = (s', out, rs)"
  shows "apply_batches (counter_codecs K) (counter_fields s) (sent_batches out) = counter_fields s'"
  using assms by (rule counter_service.client_follows)

theorem counter_client_follows_witness:
  "\<exists>s' out rs. serve (counter_serves demo_counter True True) [NewCounter 3, Decrement 1, Increment 2] counter_default = (s', out, rs)
    \<and> apply_batches (counter_codecs demo_counter) (counter_fields counter_default) (sent_batches out) = counter_fields s'"
  using counter_client_follows [OF demo_counter_law] by (metis prod_cases3)

text \<open>
  C23: the client's wait for its topic ends once a read shows the state of a service on which
  \<open>new_counter\<close> was called, with a topic that is not empty; if every read shows an empty topic it
  never returns.
\<close>

theorem wait_topic_terminates:
  assumes "counter_law K" and "serve (counter_serves K checks True) calls counter_default = (s', out, rs)"
    and "list_ex is_new calls"
    and "obs m = client_topic (apply_batches (counter_codecs K) (counter_fields counter_default) (sent_batches out))"
  shows "(\<exists>k \<le> m. wait_topic obs 0 = Some (obs k) \<and> topic_as_bytes (obs k) \<noteq> [])
    \<and> (\<forall>obs'. (\<forall>n. topic_as_bytes (obs' n) = []) \<longrightarrow> wait_topic obs' 0 = None)"
proof -
  obtain r where "ctopic s' = topic_of_vec [r]" using counter_serve_topic_byte [OF assms(2)] assms(3) by blast
  then have "topic_as_bytes (obs m) \<noteq> []"
    using counter_service.client_follows [OF assms(1,2)] assms(4)
    by (simp add: counter_fields_def client_topic_def topic_of_vec_def topic_as_bytes_def)
  from wait_topic_returns [where obs = obs, OF this, of 0] show ?thesis
    using wait_topic_SomeD by (metis le0 not_None_eq)
qed

theorem wait_topic_terminates_witness:
  "\<exists>s' out rs t. serve (counter_serves demo_counter True True) [NewCounter 3] counter_default = (s', out, rs)
    \<and> wait_topic (\<lambda>n. if n < 2 then topic_default
        else client_topic (apply_batches (counter_codecs demo_counter) (counter_fields counter_default) (sent_batches out))) 0 = Some t"
proof -
  obtain s' out rs where r: "serve (counter_serves demo_counter True True) [NewCounter 3] counter_default = (s', out, rs)"
    by (cases "serve (counter_serves demo_counter True True) [NewCounter 3] counter_default")
  show ?thesis
    using r wait_topic_terminates [OF demo_counter_law r, of "\<lambda>n. if n < 2 then topic_default
        else client_topic (apply_batches (counter_codecs demo_counter) (counter_fields counter_default) (sent_batches out))" 2]
    by auto
qed

end
