(* ===== verification/HL_CounterApp.thy ===== *)
theory HL_CounterApp
  imports HL_Counter
begin

text \<open>
  The tasks of the counter example around its service (\<open>main\<close> of \<open>examples/counter.rs\<close>): the server's
  task that reads topic notifications, the client's task that logs events, and what the log says
  about the counter.
\<close>

section \<open>The tasks\<close>

text \<open>
  \<open>while let Some(notif) = topic_notifier.recv().await\<close>: the events emitted and how the task ends;
  \<open>None\<close> is a closed channel.
\<close>

fun notifier_loop :: "counter_libs \<Rightarrow> bool \<Rightarrow> topic_notification option list \<Rightarrow> event list \<times> unit outcome" where
  "notifier_loop K open [] = ([], Returns ())"
| "notifier_loop K open (None # rest) = ([], Returns ())"
| "notifier_loop K open (Some notif # rest) =
     (case on_topic_notification K open notif of
        Panics \<Rightarrow> ([], Panics)
      | Returns evs \<Rightarrow> (let (more, r) = notifier_loop K open rest in (evs @ more, r)))"

text \<open>
  \<open>while let Ok(event) = subscription.recv().await\<close>: the lines logged and how the task ends. \<open>None\<close> is
  an error of the broadcast channel (capacity 32): closed, or the receiver has fallen behind.
\<close>

fun subscription_loop :: "counter_libs \<Rightarrow> event option list \<Rightarrow> (topic \<times> counter_event) list \<times> unit outcome" where
  "subscription_loop K [] = ([], Returns ())"
| "subscription_loop K (None # rest) = ([], Returns ())"
| "subscription_loop K (Some ev # rest) =
     (case receive_event K ev of
        Panics \<Rightarrow> ([], Panics)
      | Returns line \<Rightarrow> (let (lines, r) = subscription_loop K rest in (line # lines, r)))"

section \<open>The history of a counter\<close>

text \<open>
  The changes of a counter as integers: a call whose result leaves the range changes nothing when
  overflow is checked, and wraps around otherwise.
\<close>

fun next_topic :: "counter_call \<Rightarrow> topic \<Rightarrow> topic" where
  "next_topic (NewCounter b) t = topic_of_vec [b]"
| "next_topic _ t = t"

fun change_log :: "bool \<Rightarrow> counter_call list \<Rightarrow> topic \<Rightarrow> int \<Rightarrow> (topic \<times> counter_event) list" where
  "change_log checks [] t n = []"
| "change_log checks (c # cs) t n =
     (if checks \<and> \<not> in_u32 (spec_counter c n) then change_log checks cs t n
      else (case announced_change c (word_of_int (spec_counter c n)) (word_of_int n) of None \<Rightarrow> [] | Some e \<Rightarrow> [(t, e)])
        @ change_log checks cs (next_topic c t) (spec_counter c n mod 4294967296))"

lemma subscription_loop_append:
  "map (receive_event K) evs = map Returns ls \<Longrightarrow>
   subscription_loop K (map Some evs @ rest) = (ls @ fst (subscription_loop K rest), snd (subscription_loop K rest))"
proof (induction evs arbitrary: ls)
  case (Cons ev evs)
  then show ?case by (cases ls) (simp_all add: split_beta Let_def)
qed simp

lemma counter_call_topic:
  assumes "counter_law K" "counter_serves K checks True c s = (s', out, r)" "r \<noteq> Panics"
  shows "ctopic s' = next_topic c (ctopic s)"
proof (cases "is_new c")
  case True
  then obtain b where b: "c = NewCounter b" by (cases c) simp_all
  have "ctopic (fst (counter_serves K checks True (NewCounter b) s)) = topic_of_vec [b]"
    by (simp add: new_counter_def manager_add_def manager_remove_def Let_def)
  then show ?thesis using assms(2) unfolding b by (simp del: counter_serves.simps)
next
  case False
  then have "ctopic s' = ctopic s" using counter_call_topics(2) [OF subset_refl False, where K = K and checks = checks and s = s] assms(2) by simp
  then show ?thesis using False by (cases c) simp_all
qed

lemma change_log_call:
  assumes "counter_law K" "counter_serves K checks True c s = (s', out, r)"
  obtains ls where "map (receive_event K) (emitted out) = map Returns ls"
    "\<And>cs. change_log checks (c # cs) (ctopic s) (uint (counter s)) = ls @ change_log checks cs (ctopic s') (uint (counter s'))"
proof -
  let ?n = "uint (counter s)" and ?m = "spec_counter c (uint (counter s))"
  note R = counter_call_refines [OF assms]
  show thesis
  proof (cases "checks \<and> \<not> in_u32 ?m")
    case True
    then show thesis using R by (intro that [of "[]"]) simp_all
  next
    case False
    then have r: "r \<noteq> Panics" and n: "uint (counter s') = ?m mod 4294967296"
      using R by (auto simp: in_u32_def mod_pos_pos_trivial)
    have t: "ctopic s' = next_topic c (ctopic s)" by (rule counter_call_topic [OF assms r])
    have new: "counter s' = word_of_int ?m" using n by (simp add: word_uint_eq_iff uint_word_of_int)
    let ?ls = "case announced_change c (counter s') (counter s) of None \<Rightarrow> [] | Some e \<Rightarrow> [(ctopic s, e)]"
    have "announced_change c (counter s') (counter s) \<noteq> None \<Longrightarrow> ctopic s' = ctopic s" using t by (cases c) simp_all
    then have "map (receive_event K) (emitted out) = map Returns ?ls" using R r by (auto split: option.splits)
    moreover have "change_log checks (c # cs) (ctopic s) ?n = ?ls @ change_log checks cs (ctopic s') (uint (counter s'))" for cs
      using False new n t by (auto split: option.split)
    ultimately show thesis by (rule that)
  qed
qed

lemma serve_change_log:
  assumes "counter_law K" "serve (counter_serves K checks True) calls s = (s', out, rs)"
  shows "map (receive_event K) (emitted out) = map Returns (change_log checks calls (ctopic s) (uint (counter s)))"
  using assms(2)
proof (induction calls arbitrary: s out rs)
  case (Cons c calls)
  from Cons.prems obtain s1 out1 r outs rs1 where c: "counter_serves K checks True c s = (s1, out1, r)"
    and r: "serve (counter_serves K checks True) calls s1 = (s', outs, rs1)" and out: "out = out1 @ outs" by (rule serve_ConsE)
  obtain ls where "map (receive_event K) (emitted out1) = map Returns ls"
    "change_log checks (c # calls) (ctopic s) (uint (counter s)) = ls @ change_log checks calls (ctopic s1) (uint (counter s1))"
    using change_log_call [OF assms(1) c] by metis
  then show ?case using Cons.IH [OF r] out by (simp del: change_log.simps)
qed simp

text \<open>While the counter is not replaced, its history is on one topic, and so are its events.\<close>

lemma change_log_topics:
  "\<forall>c \<in> set calls. \<not> is_new c \<Longrightarrow> p \<in> set (change_log checks calls t n) \<Longrightarrow> fst p = t"
proof (induction calls arbitrary: n)
  case (Cons c calls)
  have "next_topic c t = t" using Cons.prems(1) by (cases c) simp_all
  then show ?case using Cons by (auto split: if_splits option.splits)
qed simp

lemma receive_event_topic: "receive_event K ev = Returns p \<Longrightarrow> ev_topic ev = fst p"
  by (auto simp: receive_event_def and_then_Returns_iff)

lemma serve_emitted_topics:
  assumes "counter_law K" "serve (counter_serves K checks True) calls s = (s', out, rs)"
    and "\<forall>c \<in> set calls. \<not> is_new c" "ev \<in> set (emitted out)"
  shows "ev_topic ev = ctopic s"
proof -
  have "receive_event K ev \<in> Returns ` set (change_log checks calls (ctopic s) (uint (counter s)))"
    using serve_change_log [OF assms(1,2)] assms(4) by (metis image_eqI list.set_map)
  then show ?thesis using change_log_topics [OF assms(3)] receive_event_topic by fastforce
qed

section \<open>Events between those of others\<close>

lemma map_in_shuffles: "zs \<in> shuffles xs ys \<Longrightarrow> map f zs \<in> shuffles (map f xs) (map f ys)"
  by (induction xs ys arbitrary: zs rule: shuffles.induct) auto

lemma map_Returns_shuffle:
  assumes "zs \<in> shuffles xs ys" "map f xs = map Returns ls" "map f ys = map Returns ms"
  obtains ks where "map f zs = map Returns ks" "ks \<in> shuffles ls ms"
proof -
  define g where "g o' = (case o' of Returns x \<Rightarrow> x | Panics \<Rightarrow> undefined)" for o' :: "'b outcome"
  have "Returns (g (f z)) = f z" if "z \<in> set zs" for z
  proof -
    have "f z \<in> set (map f xs) \<union> set (map f ys)" using that set_shuffles [OF assms(1)] by auto
    then show ?thesis unfolding assms(2,3) by (auto simp: g_def)
  qed
  then have "map f zs = map Returns (map (\<lambda>z. g (f z)) zs)" by simp
  moreover have "map g (map f zs) \<in> shuffles (map g (map f xs)) (map g (map f ys))"
    by (intro map_in_shuffles assms(1))
  then have "map (\<lambda>z. g (f z)) zs \<in> shuffles ls ms" unfolding assms(2,3) by (simp add: g_def comp_def)
  ultimately show thesis by (rule that)
qed

text \<open>
  A receiver that gets the events of a counter between others on its topic logs the history of the
  counter between the lines of the others; one that falls behind has logged a prefix.
\<close>

lemma subscription_loop_shuffle:
  assumes "evs \<in> shuffles xs ys" "map (receive_event K) xs = map Returns ls" "map (receive_event K) ys = map Returns ms"
  obtains log where "log \<in> shuffles ls ms" "subscription_loop K (map Some evs) = (log, Returns ())"
    "\<And>m rest. subscription_loop K (map Some (take m evs) @ None # rest) = (take m log, Returns ())"
proof -
  obtain log where log: "map (receive_event K) evs = map Returns log" "log \<in> shuffles ls ms"
    by (rule map_Returns_shuffle [OF assms])
  have "map (receive_event K) (take m evs) = map Returns (take m log)" for m using log(1) by (metis take_map)
  from subscription_loop_append [OF this] subscription_loop_append [OF log(1), of "[]"] log(2) that
  show thesis by simp
qed

text \<open>The topics a list of notifications creates, with repetitions.\<close>

fun created_topics :: "topic_notification list \<Rightarrow> topic list" where
  "created_topics [] = []"
| "created_topics (Created t # ns) = t # created_topics ns"
| "created_topics (Removed t # ns) = created_topics ns"

lemma test_event:
  assumes "counter_law K"
  obtains ev where "on_topic_notification K True (Created t) = Returns [ev]" "receive_event K ev = Returns (t, ServerSentTest)"
proof -
  obtain b where "to_bytes (k_event K) ServerSentTest = Some b" using assms unfolding counter_law_def by blast
  moreover from this have "from_bytes (k_event K) b = Some ServerSentTest" using assms by (simp add: counter_law_def rkyv_lawD)
  ultimately show thesis
    using that [of "event_new t b"]
    by (simp add: codable_into_def codable_from_def emit_def receive_event_def event_new_def Let_def)
qed

section \<open>A reachable server\<close>

text \<open>The client of connection 3 has made a counter, and everything this causes has happened.\<close>

definition example_node :: "counter_state node" where
  "example_node = \<lparr>nd_hub = example_hub,
     nd_state = (\<lambda>k. counter_default)(3 := \<lparr>counter = 0, ctopic = example_topic\<rparr>)\<rparr>"

lemma example_node_reach:
  "node_reach demo_lib rev (counter_serves demo_counter False True) (node_new (\<lambda>k. 6) counter_default) example_node"
proof -
  define h0 where "h0 = hub_new (\<lambda>k. 6)"
  define st where "st = (\<lambda>k :: event_sender. counter_default)(3 := \<lparr>counter = 0, ctopic = example_topic\<rparr>)"
  define h1 where "h1 = h0\<lparr>hub_proxied := (\<lambda>k. [])(3 := [PxUnsubscribe topic_default, PxSubscribe example_topic])\<rparr>"
  define h2 where "h2 = h0\<lparr>hub_proxied := (\<lambda>k. [])(3 := [PxSubscribe example_topic])\<rparr>"
  define h3 where "h3 = h0\<lparr>hub_conns := (\<lambda>k. conn_new 6 k)(3 := example_conn),
     hub_queue := [SnSubscribe example_topic [9] 3]\<rparr>"
  let ?step = "node_step demo_lib rev (counter_serves demo_counter False True)"
  obtain s' out r where c: "counter_serves demo_counter False True (NewCounter 7) counter_default = (s', out, r)"
    by (cases "counter_serves demo_counter False True (NewCounter 7) counter_default")
  have "notified out = [PxUnsubscribe topic_default, PxSubscribe example_topic]" "emitted out = []"
    "s' = \<lparr>counter = 0, ctopic = example_topic\<rparr>"
    using arg_cong [OF c, of "\<lambda>x. notified (fst (snd x))"] arg_cong [OF c, of "\<lambda>x. emitted (fst (snd x))"] arg_cong [OF c, of fst]
    by (simp_all add: new_counter_def manager_add_def manager_remove_def Let_def counter_default_def example_topic_def topic_of_vec_def)
  then have 1: "?step (node_new (\<lambda>k. 6) counter_default) \<lparr>nd_hub = h1, nd_state = st\<rparr>"
    using node_call [of "counter_serves demo_counter False True" "NewCounter 7" "node_new (\<lambda>k. 6) counter_default" 3 s' out r demo_lib rev] c
    by (simp add: node_new_def hub_call_def h0_def h1_def hub_new_def st_def)
  have 2: "?step \<lparr>nd_hub = h1, nd_state = st\<rparr> \<lparr>nd_hub = h2, nd_state = st\<rparr>"
    using node_subscription [of "\<lparr>nd_hub = h1, nd_state = st\<rparr>" 3 "PxUnsubscribe topic_default" "[PxSubscribe example_topic]" env_ok demo_lib
      "conn_new 6 3" "[]"]
    by (simp add: h0_def h1_def h2_def hub_new_def fresh_id_def env_ok_def conn_new_def fun_upd_idem)
  have 3: "?step \<lparr>nd_hub = h2, nd_state = st\<rparr> \<lparr>nd_hub = h3, nd_state = st\<rparr>"
    using node_subscription [of "\<lparr>nd_hub = h2, nd_state = st\<rparr>" 3 "PxSubscribe example_topic" "[]" env_ok demo_lib
      example_conn "[SwitchSend (SnSubscribe example_topic [9] 3)]"]
    by (simp add: h0_def h2_def h3_def hub_new_def fresh_id_def env_ok_def example_conn_def conn_new_def fun_upd_idem Let_def)
  have "hub_step demo_lib rev h3 example_hub"
    using hub_notify [of h3 "SnSubscribe example_topic [9] 3" "[]" rev _ _ demo_lib]
    by (simp add: h0_def h3_def hub_new_def example_hub_def switch_new_def)
  then have 4: "?step \<lparr>nd_hub = h3, nd_state = st\<rparr> example_node"
    using node_other [of demo_lib rev "\<lparr>nd_hub = h3, nd_state = st\<rparr>" example_hub]
    by (simp add: example_node_def st_def h3_def h0_def hub_new_def example_hub_def)
  note more = reachable_step [of ?step]
  show ?thesis unfolding node_reach_def by (rule more [OF more [OF more [OF more [OF reachable_refl 1] 2] 3] 4])
qed

section \<open>Properties\<close>

text \<open>
  The topic notifier's task answers each created topic with one test event on that topic, in order,
  and never panics.
\<close>

theorem notifier_sends_test_events:
  assumes "counter_law K"
  shows "\<exists>evs. notifier_loop K True (map Some notifs) = (evs, Returns ())
    \<and> map (receive_event K) evs = map (\<lambda>t. Returns (t, ServerSentTest)) (created_topics notifs)"
proof (induction notifs rule: created_topics.induct)
  case (2 t ns)
  then obtain evs where "notifier_loop K True (map Some ns) = (evs, Returns ())"
    "map (receive_event K) evs = map (\<lambda>t. Returns (t, ServerSentTest)) (created_topics ns)" by blast
  moreover obtain ev where "on_topic_notification K True (Created t) = Returns [ev]" "receive_event K ev = Returns (t, ServerSentTest)"
    by (rule test_event [OF assms])
  ultimately show ?case by (intro exI [of _ "ev # evs"]) (simp del: on_topic_notification.simps)
qed simp_all

end
