(* ===== verification/HL_Todo.thy ===== *)
theory HL_Todo
  imports HL_Node HL_Demo
begin

text \<open>
  The to-do list (\<open>examples/todo.rs\<close>): tasks in a hash map under 32-bit identifiers that the server
  hands out, the methods on it, and the script the example's \<open>main\<close> runs against the service.
\<close>

section \<open>Data\<close>

datatype task_status = Todo | Done

record task =
  task_text :: string
  status :: task_status

definition task_new :: "string \<Rightarrow> task" where
  "task_new txt = \<lparr>task_text = txt, status = Todo\<rparr>"

record todo_state =
  tasks :: "(u32 \<times> task) list"
  next_id :: u32

definition todo_default :: todo_state where
  "todo_default = \<lparr>tasks = [], next_id = 0\<rparr>"

text \<open>Hash maps are compared and serialized by their contents, so the field's value is a map.\<close>

datatype todo_value = TvTasks "u32 \<rightharpoonup> task" | TvU32 u32

fun tv_tasks :: "todo_value \<Rightarrow> (u32 \<rightharpoonup> task) option" where
  "tv_tasks (TvTasks m) = Some m"
| "tv_tasks _ = None"

fun tv_u32 :: "todo_value \<Rightarrow> u32 option" where
  "tv_u32 (TvU32 n) = Some n"
| "tv_u32 _ = None"

record todo_libs =
  k_tasks :: "(u32 \<rightharpoonup> task) rkyv"
  k_next_id :: "u32 rkyv"

definition todo_codecs :: "todo_libs \<Rightarrow> todo_value rkyv list" where
  "todo_codecs K = [field_codec TvTasks tv_tasks (k_tasks K), field_codec TvU32 tv_u32 (k_next_id K)]"

definition todo_fields :: "todo_state \<Rightarrow> todo_value list" where
  "todo_fields s = [TvTasks (map_of (tasks s)), TvU32 (next_id s)]"

definition todo_law :: "todo_libs \<Rightarrow> bool" where
  [lib_laws]: "todo_law K \<longleftrightarrow> rkyv_law (k_tasks K) \<and> rkyv_law (k_next_id K)
     \<and> (\<forall>m. to_bytes (k_tasks K) m \<noteq> None) \<and> (\<forall>n. to_bytes (k_next_id K) n \<noteq> None)"

section \<open>The methods\<close>

datatype todo_call =
    Create task
  | MarkAsDone "u32 list"
  | GetTasks "u32 list"
  | GetAll
  | Delete "u32 list"
  | DeleteAll
  | DeleteDoneTasks

datatype todo_reply = Created u32 | Finished | Tasks "(u32 \<times> task) list"

type_synonym todo_body = "(todo_state, todo_reply handler_result) body"

definition create :: "bool \<Rightarrow> task \<Rightarrow> todo_body" where
  "create checks t s =
     (let new_id = next_id s
      in case word_add checks (next_id s) 1 of
           Panics \<Rightarrow> (s, [], Panics)
         | Returns n \<Rightarrow>
             (s\<lparr>next_id := n, tasks := hm_insert new_id t (tasks s)\<rparr>, [], Returns (Inr (Created new_id))))"

fun mark_loop :: "u32 list \<Rightarrow> (u32 \<times> task) list \<Rightarrow> (u32 \<times> task) list" where
  "mark_loop [] ts = ts"
| "mark_loop (i # ids) ts =
     mark_loop ids (case map_of ts i of Some t \<Rightarrow> hm_insert i (t\<lparr>status := Done\<rparr>) ts | None \<Rightarrow> ts)"

definition mark_as_done :: "u32 list \<Rightarrow> todo_body" where
  "mark_as_done ids s = (s\<lparr>tasks := mark_loop ids (tasks s)\<rparr>, [], Returns (Inr Finished))"

fun get_loop :: "(u32 \<times> task) list \<Rightarrow> u32 list \<Rightarrow> (u32 \<times> task) list \<Rightarrow> (u32 \<times> task) list" where
  "get_loop ts [] res = res"
| "get_loop ts (i # ids) res =
     get_loop ts ids (case map_of ts i of Some t \<Rightarrow> hm_insert i t res | None \<Rightarrow> res)"

definition get_tasks :: "u32 list \<Rightarrow> todo_state \<Rightarrow> todo_reply handler_result outcome" where
  "get_tasks ids s = Returns (Inr (Tasks (get_loop (tasks s) ids [])))"

definition get_all :: "todo_state \<Rightarrow> todo_reply handler_result outcome" where
  "get_all s = Returns (Inr (Tasks (tasks s)))"

fun remove_loop :: "u32 list \<Rightarrow> (u32 \<times> task) list \<Rightarrow> (u32 \<times> task) list" where
  "remove_loop [] ts = ts"
| "remove_loop (i # ids) ts = remove_loop ids (hm_remove i ts)"

definition delete_tasks :: "u32 list \<Rightarrow> todo_body" where
  "delete_tasks ids s = (s\<lparr>tasks := remove_loop ids (tasks s)\<rparr>, [], Returns (Inr Finished))"

definition delete_all :: todo_body where
  "delete_all s = (s\<lparr>tasks := []\<rparr>, [], Returns (Inr Finished))"

text \<open>\<open>iter\<close>: the order in which the hash map is walked.\<close>

fun done_loop :: "(u32 \<times> task) list \<Rightarrow> u32 list \<Rightarrow> u32 list" where
  "done_loop [] ids = ids"
| "done_loop ((i, t) # ts) ids = done_loop ts (case status t of Done \<Rightarrow> ids @ [i] | Todo \<Rightarrow> ids)"

definition delete_done_tasks :: "((u32 \<times> task) list \<Rightarrow> (u32 \<times> task) list) \<Rightarrow> todo_body" where
  "delete_done_tasks iter s =
     (let ids = done_loop (iter (tasks s)) []
      in (s\<lparr>tasks := remove_loop ids (tasks s)\<rparr>, [], Returns (Inr Finished)))"

fun todo_serves ::
  "todo_libs \<Rightarrow> bool \<Rightarrow> ((u32 \<times> task) list \<Rightarrow> (u32 \<times> task) list) \<Rightarrow> todo_call \<Rightarrow> todo_body" where
  "todo_serves K checks iter (Create t) = with_write (todo_codecs K) todo_fields (create checks t)"
| "todo_serves K checks iter (MarkAsDone ids) = with_write (todo_codecs K) todo_fields (mark_as_done ids)"
| "todo_serves K checks iter (GetTasks ids) = with_read (get_tasks ids)"
| "todo_serves K checks iter GetAll = with_read get_all"
| "todo_serves K checks iter (Delete ids) = with_write (todo_codecs K) todo_fields (delete_tasks ids)"
| "todo_serves K checks iter DeleteAll = with_write (todo_codecs K) todo_fields delete_all"
| "todo_serves K checks iter DeleteDoneTasks = with_write (todo_codecs K) todo_fields (delete_done_tasks iter)"

section \<open>The script of \<open>main\<close>\<close>

datatype line = NoTasks | TaskLine u32 task | Blank

definition print_tasks :: "((u32 \<times> task) list \<Rightarrow> (u32 \<times> task) list) \<Rightarrow> (u32 \<times> task) list \<Rightarrow> line list" where
  "print_tasks iter ts = (if ts = [] then [NoTasks] else map (\<lambda>(i, t). TaskLine i t) (iter ts)) @ [Blank]"

text \<open>A call whose result the script unwraps: an error or a panic of the method panics the script.\<close>

definition ask ::
  "(todo_call \<Rightarrow> todo_body) \<Rightarrow> todo_call \<Rightarrow> todo_state \<Rightarrow> (todo_state \<times> todo_reply) outcome" where
  "ask call c s = (case call c s of (s', out, Returns (Inr r)) \<Rightarrow> Returns (s', r) | _ \<Rightarrow> Panics)"

definition show_all ::
  "(todo_call \<Rightarrow> todo_body) \<Rightarrow> ((u32 \<times> task) list \<Rightarrow> (u32 \<times> task) list) \<Rightarrow> todo_state \<Rightarrow> (todo_state \<times> line list) outcome" where
  "show_all call iter s =
     and_then (ask call GetAll s) (\<lambda>(s, r). case r of Tasks ts \<Rightarrow> Returns (s, print_tasks iter ts) | _ \<Rightarrow> Panics)"

fun create_all :: "(todo_call \<Rightarrow> todo_body) \<Rightarrow> task list \<Rightarrow> todo_state \<Rightarrow> todo_state outcome" where
  "create_all call [] s = Returns s"
| "create_all call (t # ts) s = and_then (ask call (Create t) s) (\<lambda>(s, _). create_all call ts s)"

definition tasks_to_create :: "task list" where
  "tasks_to_create = [task_new ''Buy milk'', task_new ''Buy eggs'', task_new ''Buy bread'', task_new ''use arch btw'']"

definition todo_main ::
  "(todo_call \<Rightarrow> todo_body) \<Rightarrow> ((u32 \<times> task) list \<Rightarrow> (u32 \<times> task) list) \<Rightarrow> todo_state \<Rightarrow> (todo_state \<times> line list) outcome" where
  "todo_main call iter s =
     and_then (show_all call iter s) (\<lambda>(s, p1).
     and_then (create_all call tasks_to_create s) (\<lambda>s.
     and_then (ask call (Create (task_new ''Buy cheese'')) s) (\<lambda>(s, r).
     case r of
       Created task_id \<Rightarrow>
         and_then (show_all call iter s) (\<lambda>(s, p2).
         and_then (ask call (Delete [task_id]) s) (\<lambda>(s, _).
         and_then (show_all call iter s) (\<lambda>(s, p3).
         and_then (ask call (MarkAsDone [0, 1]) s) (\<lambda>(s, _).
         and_then (ask call DeleteDoneTasks s) (\<lambda>(s, _).
         and_then (show_all call iter s) (\<lambda>(s, p4).
         and_then (ask call DeleteAll s) (\<lambda>(s, _).
         and_then (show_all call iter s) (\<lambda>(s, p5).
           Returns (s, p1 @ p2 @ p3 @ p4 @ p5)))))))))
     | _ \<Rightarrow> Panics)))"

section \<open>The service keeps the contract of \<open>guarded_service\<close>\<close>

lemma todo_sends_nothing:
  "sends_nothing (create checks t)" "sends_nothing (mark_as_done ids)" "sends_nothing (delete_tasks ids)"
  "sends_nothing delete_all" "sends_nothing (delete_done_tasks iter)"
  by (simp_all add: sends_nothing_def create_def mark_as_done_def delete_tasks_def delete_all_def
      delete_done_tasks_def Let_def split: outcome.split)

interpretation todo_service: guarded_service "todo_law K" "todo_codecs K" todo_fields "todo_serves K checks iter"
  for K checks iter
proof unfold_locales
  show "list_all rkyv_law (todo_codecs K)" if "todo_law K"
    using that by (auto simp: todo_law_def todo_codecs_def intro!: field_codec_law elim: tv_tasks.elims tv_u32.elims)
  show "list_all2 (\<lambda>c v. to_bytes c v \<noteq> None) (todo_codecs K) (todo_fields s)" if "todo_law K" for s
    using that by (simp add: todo_law_def todo_codecs_def todo_fields_def field_codec_to_bytes)
  show "(\<exists>b. sends_nothing b \<and> todo_serves K checks iter c = with_write (todo_codecs K) todo_fields b)
      \<or> (\<exists>f. todo_serves K checks iter c = with_read f)" for c
    by (cases c) (auto intro: todo_sends_nothing)
qed (simp add: todo_codecs_def todo_fields_def)

text \<open>Its connections subscribe to nothing.\<close>

lemma todo_quiet: "quiet_service (todo_serves K checks iter)"
  unfolding quiet_service_def
proof (intro allI)
  show "notified (fst (snd (todo_serves K checks iter c s))) = []" for c s
    by (cases c) (simp_all add: create_def mark_as_done_def delete_tasks_def delete_all_def delete_done_tasks_def with_read_def Let_def split: outcome.split)
qed

interpretation todo_node: topic_service "todo_serves K checks iter" "\<lambda>s. {}" for K checks iter
  by (rule quiet_topic_service [OF todo_quiet])

lemmas todo_write_result = todo_service.write_sends(2) [OF _ todo_sends_nothing(1)]
  todo_service.write_sends(2) [OF _ todo_sends_nothing(2)] todo_service.write_sends(2) [OF _ todo_sends_nothing(3)]
  todo_service.write_sends(2) [OF _ todo_sends_nothing(4)] todo_service.write_sends(2) [OF _ todo_sends_nothing(5)]

section \<open>The abstract to-do list\<close>

text \<open>
  The list as a map and the next identifier. \<open>None\<close> as a reply is a panic; the reply to a query is
  the map it carries.
\<close>

datatype spec_reply = SpCreated u32 | SpFinished | SpTasks "u32 \<rightharpoonup> task"

type_synonym todo_spec = "(u32 \<rightharpoonup> task) \<times> u32"

fun spec_todo :: "bool \<Rightarrow> todo_call \<Rightarrow> todo_spec \<Rightarrow> todo_spec \<times> spec_reply option" where
  "spec_todo checks (Create t) (m, n) =
     (if checks \<and> n = - 1 then ((m, n), None) else ((m(n \<mapsto> t), n + 1), Some (SpCreated n)))"
| "spec_todo checks (MarkAsDone ids) (m, n) =
     ((\<lambda>i. map_option (\<lambda>t. if i \<in> set ids then t\<lparr>status := Done\<rparr> else t) (m i), n), Some SpFinished)"
| "spec_todo checks (GetTasks ids) (m, n) = ((m, n), Some (SpTasks (m |` set ids)))"
| "spec_todo checks GetAll (m, n) = ((m, n), Some (SpTasks m))"
| "spec_todo checks (Delete ids) (m, n) = ((m |` (- set ids), n), Some SpFinished)"
| "spec_todo checks DeleteAll (m, n) = ((Map.empty, n), Some SpFinished)"
| "spec_todo checks DeleteDoneTasks (m, n) =
     ((\<lambda>i. option_filter (\<lambda>t. status t = Todo) (m i), n), Some SpFinished)"

fun spec_run :: "bool \<Rightarrow> todo_call list \<Rightarrow> todo_spec \<Rightarrow> todo_spec \<times> spec_reply option list" where
  "spec_run checks [] p = (p, [])"
| "spec_run checks (c # cs) p =
     (let (p', r) = spec_todo checks c p; (p'', rs) = spec_run checks cs p' in (p'', r # rs))"

definition todo_abs :: "todo_state \<Rightarrow> todo_spec" where
  "todo_abs s = (map_of (tasks s), next_id s)"

fun reply_abs :: "todo_reply handler_result outcome \<Rightarrow> spec_reply option" where
  "reply_abs (Returns (Inr (Created i))) = Some (SpCreated i)"
| "reply_abs (Returns (Inr Finished)) = Some SpFinished"
| "reply_abs (Returns (Inr (Tasks ts))) = Some (SpTasks (map_of ts))"
| "reply_abs (Returns (Inl e)) = None"
| "reply_abs Panics = None"

text \<open>A hash map has each key once.\<close>

definition todo_inv :: "todo_state \<Rightarrow> bool" where
  "todo_inv s \<longleftrightarrow> distinct (map fst (tasks s))"

lemma map_of_mark_loop:
  "map_of (mark_loop ids ts) i = map_option (\<lambda>t. if i \<in> set ids then t\<lparr>status := Done\<rparr> else t) (map_of ts i)"
  by (induction ids ts rule: mark_loop.induct) (auto split: option.splits simp: option.map_comp option.map_ident intro!: option.map_cong)

lemma distinct_mark_loop: "distinct (map fst ts) \<Longrightarrow> distinct (map fst (mark_loop ids ts))"
  by (induction ids ts rule: mark_loop.induct) (auto split: option.splits)

lemma map_of_get_loop: "map_of (get_loop ts ids res) = map_of res ++ (map_of ts |` set ids)"
  by (induction ts ids res rule: get_loop.induct)
    (auto simp: fun_eq_iff map_add_def restrict_map_def split: option.splits)

lemma map_of_remove_loop: "map_of (remove_loop ids ts) = map_of ts |` (- set ids)"
  by (induction ids ts rule: remove_loop.induct) (auto simp: restrict_map_def fun_eq_iff)

lemma distinct_remove_loop: "distinct (map fst ts) \<Longrightarrow> distinct (map fst (remove_loop ids ts))"
  by (induction ids ts rule: remove_loop.induct) auto

lemma set_done_loop: "set (done_loop ts ids) = set ids \<union> {i. \<exists>t. (i, t) \<in> set ts \<and> status t = Done}"
  by (induction ts ids rule: done_loop.induct) (auto split: task_status.splits)

lemma map_of_delete_done:
  assumes "iter_law iter" "distinct (map fst ts)"
  shows "map_of (remove_loop (done_loop (iter ts) []) ts) = (\<lambda>i. option_filter (\<lambda>t. status t = Todo) (map_of ts i))"
proof
  fix i
  have "i \<in> set (done_loop (iter ts) []) \<longleftrightarrow> (\<exists>t. map_of ts i = Some t \<and> status t = Done)"
    using assms by (auto simp: set_done_loop set_iter)
  then show "map_of (remove_loop (done_loop (iter ts) []) ts) i = option_filter (\<lambda>t. status t = Todo) (map_of ts i)"
    by (cases "map_of ts i") (auto simp: map_of_remove_loop restrict_map_def intro: task_status.exhaust)
qed

text \<open>One call refines the abstract list.\<close>

lemma todo_call_refines:
  assumes "todo_law K" "iter_law iter" "todo_inv s" "todo_serves K checks iter c s = (s', out, r)"
  shows "(todo_abs s', reply_abs r) = spec_todo checks c (todo_abs s)" and "todo_inv s'"
proof -
  let ?x = "todo_serves K checks iter c s"
  have "(todo_abs (fst ?x), reply_abs (snd (snd ?x))) = spec_todo checks c (todo_abs s) \<and> todo_inv (fst ?x)"
  proof (cases c)
    case (Create t)
    then show ?thesis using assms(1,3)
      by (auto simp: todo_write_result create_def todo_abs_def word_add_1_u32 todo_inv_def Let_def)
  next
    case DeleteDoneTasks
    then show ?thesis using assms(1-3)
      by (auto simp: todo_write_result delete_done_tasks_def todo_abs_def todo_inv_def Let_def map_of_delete_done
          distinct_remove_loop)
  qed (use assms(1,3) in \<open>auto simp: todo_write_result todo_abs_def todo_inv_def mark_as_done_def get_tasks_def
      get_all_def delete_tasks_def delete_all_def with_read_def map_of_mark_loop map_of_get_loop map_of_remove_loop
      distinct_mark_loop distinct_remove_loop restrict_map_def fun_eq_iff\<close>)
  then show "(todo_abs s', reply_abs r) = spec_todo checks c (todo_abs s)" "todo_inv s'"
    using assms(4) by simp_all
qed

lemma todo_serve_refines:
  assumes "todo_law K" "iter_law iter"
  shows "todo_inv s \<Longrightarrow> serve (todo_serves K checks iter) calls s = (s', out, rs) \<Longrightarrow>
    (todo_abs s', map reply_abs rs) = spec_run checks calls (todo_abs s) \<and> todo_inv s'"
proof (induction calls arbitrary: s out rs)
  case (Cons c calls)
  from Cons.prems(2) obtain s1 out1 r1 outs rs2 where c: "todo_serves K checks iter c s = (s1, out1, r1)"
    and r: "serve (todo_serves K checks iter) calls s1 = (s', outs, rs2)" and rs: "rs = r1 # rs2"
    by (rule serve_ConsE)
  note one = todo_call_refines [OF assms Cons.prems(1) c]
  show ?case using Cons.IH [OF one(2) r] one(1) [symmetric] rs by (auto split: prod.split)
qed simp

section \<open>Identifiers\<close>

fun created :: "spec_reply option list \<Rightarrow> u32 list" where
  "created [] = []"
| "created (Some (SpCreated i) # rs) = i # created rs"
| "created (_ # rs) = created rs"

text \<open>
  With overflow checks identifiers are handed out in order from the next one, and every task's
  identifier is below the next.
\<close>

lemma spec_todo_fresh:
  assumes "spec_todo True c (m, n) = ((m', n'), r)" "\<forall>i \<in> dom m. i < n"
  shows "unat n' = unat n + length (created [r]) \<and> (\<forall>i \<in> dom m'. i < n')
    \<and> created [r] = map (\<lambda>k. n + of_nat k) [0..<length (created [r])]"
proof (cases c)
  case (Create t)
  then show ?thesis
  proof (cases "n = - 1")
    case False
    then have "word_add True n 1 = Returns (n + 1)" by (simp add: word_add_1_u32)
    then have "unat (n + 1) = unat n + 1" by (simp add: checked_add_iff)
    then show ?thesis using assms Create False by (auto simp: word_less_nat_alt dom_def less_Suc_eq split: if_splits)
  qed (use assms Create in auto)
qed (use assms in \<open>auto simp: restrict_map_def option_filter_def split: if_splits option.splits\<close>)

lemma created_append: "created (rs @ qs) = created rs @ created qs"
  by (induction rs rule: created.induct) auto

lemma map_upt_add: "map f [0..<a + b] = map f [0..<a] @ map (\<lambda>k. f (a + k)) [0..<b]"
  by (induction b) simp_all

lemma spec_run_fresh:
  "spec_run True calls (m, n) = ((m', n'), rs) \<Longrightarrow> \<forall>i \<in> dom m. i < n \<Longrightarrow>
   unat n' = unat n + length (created rs) \<and> (\<forall>i \<in> dom m'. i < n')
   \<and> created rs = map (\<lambda>k. n + of_nat k) [0..<length (created rs)]"
proof (induction calls arbitrary: m n rs)
  case (Cons c calls)
  obtain m1 n1 r where c: "spec_todo True c (m, n) = ((m1, n1), r)" by (metis prod.collapse)
  obtain rs1 where r: "spec_run True calls (m1, n1) = ((m', n'), rs1)" and rs: "rs = r # rs1"
    using Cons.prems(1) c by (auto split: prod.splits)
  note one = spec_todo_fresh [OF c Cons.prems(2)]
  note rest = Cons.IH [OF r conjunct1 [OF conjunct2 [OF one]]]
  have cr: "created rs = created [r] @ created rs1" using created_append [of "[r]" rs1] rs by simp
  have n1: "n1 = n + of_nat (length (created [r]))"
    using conjunct1 [OF one] by (metis of_nat_add of_nat_unat ucast_id)
  have "created rs1 = map (\<lambda>k. n + of_nat (length (created [r]) + k)) [0..<length (created rs1)]"
    using rest unfolding n1 by (simp add: add.assoc)
  then have "created rs = map (\<lambda>k. n + of_nat k) [0..<length (created rs)]"
    unfolding cr length_append map_upt_add using conjunct2 [OF conjunct2 [OF one]] by simp
  then show ?case using rest one cr by simp
qed simp

lemma distinct_ids: "distinct (map (of_nat :: nat \<Rightarrow> u32) [0..<unat (n :: u32)])"
proof -
  have "unat (of_nat i :: u32) = i" if "i < unat n" for i
    using that unsigned_less [of n, where 'a = nat] by (simp add: unat_of_nat)
  then show ?thesis by (auto simp: distinct_map intro!: inj_onI) metis
qed

section \<open>The script, call by call\<close>

lemma remove_loop_filter: "remove_loop ids ts = filter (\<lambda>p. fst p \<notin> set ids) ts"
  by (induction ids ts rule: remove_loop.induct) (auto simp: hm_remove_def intro: filter_cong)

lemma ask_write:
  assumes "todo_law K" "sends_nothing b" "call c = with_write (todo_codecs K) todo_fields b"
    and "b s = (s', out, Returns (Inr r))"
  shows "ask call c s = Returns (s', r)"
proof -
  let ?w = "with_write (todo_codecs K) todo_fields b s"
  have "fst ?w = s'" "snd (snd ?w) = Returns (Inr r)"
    using assms(4) by (simp_all add: todo_service.write_sends(2) [OF assms(1,2)])
  then show ?thesis by (cases ?w) (simp add: ask_def assms(3))
qed

lemma ask_todo:
  assumes "todo_law K"
  shows "next_id s \<noteq> - 1 \<Longrightarrow> ask (todo_serves K checks iter) (Create t) s
      = Returns (s\<lparr>next_id := next_id s + 1, tasks := hm_insert (next_id s) t (tasks s)\<rparr>, Created (next_id s))"
    and "ask (todo_serves K checks iter) (MarkAsDone ids) s = Returns (s\<lparr>tasks := mark_loop ids (tasks s)\<rparr>, Finished)"
    and "ask (todo_serves K checks iter) (Delete ids) s
      = Returns (s\<lparr>tasks := filter (\<lambda>p. fst p \<notin> set ids) (tasks s)\<rparr>, Finished)"
    and "ask (todo_serves K checks iter) DeleteAll s = Returns (s\<lparr>tasks := []\<rparr>, Finished)"
    and "iter_law iter \<Longrightarrow> ask (todo_serves K checks iter) DeleteDoneTasks s
      = Returns (s\<lparr>tasks := filter (\<lambda>p. \<not> (\<exists>t. (fst p, t) \<in> set (tasks s) \<and> status t = Done)) (tasks s)\<rparr>, Finished)"
    and "show_all (todo_serves K checks iter) iter s = Returns (s, print_tasks iter (tasks s))"
proof -
  note w = ask_write [OF assms, where call = "todo_serves K checks iter"]
  show "next_id s \<noteq> - 1 \<Longrightarrow> ask (todo_serves K checks iter) (Create t) s
      = Returns (s\<lparr>next_id := next_id s + 1, tasks := hm_insert (next_id s) t (tasks s)\<rparr>, Created (next_id s))"
    by (rule w [OF todo_sends_nothing(1)]) (simp_all add: create_def word_add_1_u32 Let_def)
  show "ask (todo_serves K checks iter) (MarkAsDone ids) s = Returns (s\<lparr>tasks := mark_loop ids (tasks s)\<rparr>, Finished)"
    by (rule w [OF todo_sends_nothing(2)]) (simp_all add: mark_as_done_def)
  show "ask (todo_serves K checks iter) (Delete ids) s
      = Returns (s\<lparr>tasks := filter (\<lambda>p. fst p \<notin> set ids) (tasks s)\<rparr>, Finished)"
    by (rule w [OF todo_sends_nothing(3)]) (simp_all add: delete_tasks_def remove_loop_filter)
  show "ask (todo_serves K checks iter) DeleteAll s = Returns (s\<lparr>tasks := []\<rparr>, Finished)"
    by (rule w [OF todo_sends_nothing(4)]) (simp_all add: delete_all_def)
  show "iter_law iter \<Longrightarrow> ask (todo_serves K checks iter) DeleteDoneTasks s
      = Returns (s\<lparr>tasks := filter (\<lambda>p. \<not> (\<exists>t. (fst p, t) \<in> set (tasks s) \<and> status t = Done)) (tasks s)\<rparr>, Finished)"
    by (rule w [OF todo_sends_nothing(5) [of iter]])
      (simp_all add: delete_done_tasks_def remove_loop_filter set_done_loop set_iter Let_def)
  show "show_all (todo_serves K checks iter) iter s = Returns (s, print_tasks iter (tasks s))"
    by (simp add: show_all_def ask_def with_read_def get_all_def)
qed

text \<open>A concrete instance of the libraries.\<close>

instance task_status :: countable
  by countable_datatype

instantiation task_ext :: (countable) countable
begin
instance
  by (rule countable_classI [of "\<lambda>t. to_nat (task_text t, status t, task.more t)"]) (simp add: task.equality)
end

definition demo_todo :: todo_libs where
  "demo_todo = \<lparr>k_tasks = unary_rkyv, k_next_id = unary_rkyv\<rparr>"

lemma demo_todo_law: "todo_law demo_todo"
  by (simp add: todo_law_def demo_todo_def unary_rkyv_law del: not_None_eq)

section \<open>Properties\<close>

text \<open>
  C20: the service implements the abstract to-do list. From the empty list, any sequence of calls
  gives the replies and the contents the map specification gives, whatever order the hash map is
  walked in, and the client that applies the batches holds the same tasks and next identifier.
\<close>

theorem todo_refines_map:
  assumes "todo_law K" and "iter_law iter"
    and "serve (todo_serves K checks iter) calls todo_default = (s', out, rs)"
  shows "(todo_abs s', map reply_abs rs) = spec_run checks calls (Map.empty, 0)
    \<and> todo_inv s' \<and> apply_batches (todo_codecs K) (todo_fields todo_default) (sent_batches out) = todo_fields s'"
  using todo_serve_refines [OF assms(1,2) _ assms(3)] todo_service.client_follows [OF assms(1,3)]
  by (simp add: todo_abs_def todo_inv_def todo_default_def)

theorem todo_refines_map_witness:
  "\<exists>s' out rs. serve (todo_serves demo_todo True rev) [Create (task_new ''a''), MarkAsDone [0, 7], GetTasks [0, 1], DeleteDoneTasks]
      todo_default = (s', out, rs)
    \<and> todo_abs s' = (Map.empty, 1)
    \<and> map reply_abs rs = [Some (SpCreated 0), Some SpFinished,
        Some (SpTasks [0 \<mapsto> \<lparr>task_text = ''a'', status = Done\<rparr>]), Some SpFinished]"
proof -
  let ?calls = "[Create (task_new ''a''), MarkAsDone [0, 7], GetTasks [0, 1], DeleteDoneTasks]"
  obtain s' out rs where r: "serve (todo_serves demo_todo True rev) ?calls todo_default = (s', out, rs)"
    by (cases "serve (todo_serves demo_todo True rev) ?calls todo_default")
  have "spec_run True ?calls (Map.empty, 0) = ((Map.empty, 1), [Some (SpCreated 0), Some SpFinished,
        Some (SpTasks [0 \<mapsto> \<lparr>task_text = ''a'', status = Done\<rparr>]), Some SpFinished])"
    by (auto simp: task_new_def fun_eq_iff restrict_map_def)
  then show ?thesis using todo_refines_map [OF demo_todo_law iter_law_rev r] r by simp
qed

text \<open>
  C24: with overflow checks the identifiers a service hands out are 0, 1, 2 and so on, never one
  twice, whatever is deleted in between, and every stored task has an identifier that was handed
  out; \<open>create\<close> panics, changing nothing, when the identifiers are used up.
\<close>

theorem todo_ids_fresh:
  assumes "todo_law K" and "iter_law iter"
    and "serve (todo_serves K True iter) calls todo_default = (s', out, rs)"
  shows "created (map reply_abs rs) = map of_nat [0..<unat (next_id s')]
    \<and> distinct (created (map reply_abs rs))
    \<and> fst ` set (tasks s') \<subseteq> set (created (map reply_abs rs))
    \<and> (next_id s' = - 1 \<longrightarrow> todo_serves K True iter (Create t) s' = (s', [], Panics))"
proof -
  have "spec_run True calls (Map.empty, 0) = ((map_of (tasks s'), next_id s'), map reply_abs rs)"
    using todo_serve_refines [OF assms(1,2) _ assms(3)] by (simp add: todo_abs_def todo_inv_def todo_default_def)
  from spec_run_fresh [OF this] have ids: "unat (next_id s') = length (created (map reply_abs rs))"
    "\<forall>i \<in> dom (map_of (tasks s')). i < next_id s'"
    "created (map reply_abs rs) = map of_nat [0..<length (created (map reply_abs rs))]" by simp_all
  then have eq: "created (map reply_abs rs) = map of_nat [0..<unat (next_id s')]" by simp
  have "distinct (created (map reply_abs rs))" unfolding eq by (rule distinct_ids)
  moreover have "fst ` set (tasks s') \<subseteq> set (created (map reply_abs rs))"
  proof
    fix i
    assume "i \<in> fst ` set (tasks s')"
    then have "i < next_id s'" using ids(2) by (auto simp: dom_map_of_conv_image_fst)
    then show "i \<in> set (created (map reply_abs rs))"
      unfolding eq by (auto simp: word_less_nat_alt intro!: image_eqI [of _ _ "unat i"])
  qed
  ultimately show ?thesis
    using eq by (simp add: with_write_panic create_def word_add_1_u32 Let_def)
qed

theorem todo_ids_fresh_witness:
  "\<exists>s' out rs. serve (todo_serves demo_todo True rev) [Create (task_new ''a''), Delete [0], Create (task_new ''b'')]
      todo_default = (s', out, rs) \<and> created (map reply_abs rs) = map of_nat [0..<unat (next_id s')]"
  using todo_ids_fresh [OF demo_todo_law iter_law_rev] by (metis prod_cases3)

text \<open>
  The example's script ends without a panic and prints, besides the empty list at its start and
  end, the five tasks, then the four that remain after the last is deleted, then the two that are
  not done.
\<close>

theorem todo_main_output:
  assumes "todo_law K" and "iter_law iter"
  shows "todo_main (todo_serves K checks iter) iter todo_default =
    (let milk = (0, task_new ''Buy milk''); eggs = (1, task_new ''Buy eggs''); bread = (2, task_new ''Buy bread'');
         arch = (3, task_new ''use arch btw''); cheese = (4, task_new ''Buy cheese'')
     in Returns (\<lparr>tasks = [], next_id = 5\<rparr>,
          [NoTasks, Blank] @ print_tasks iter [milk, eggs, bread, arch, cheese]
          @ print_tasks iter [milk, eggs, bread, arch] @ print_tasks iter [bread, arch] @ [NoTasks, Blank]))"
  using assms
  by (simp add: todo_main_def ask_todo tasks_to_create_def todo_default_def task_new_def print_tasks_def Let_def)

theorem todo_main_output_witness:
  "snd (returned (todo_main (todo_serves demo_todo True (\<lambda>xs. xs)) (\<lambda>xs. xs) todo_default)) ! 13
     = TaskLine 2 (task_new ''Buy bread'')"
  using todo_main_output [OF demo_todo_law iter_law_id, where checks = True]
  by (simp add: Let_def print_tasks_def)

end
