(* ===== verification/HL_Pet.thy ===== *)
theory HL_Pet
  imports HL_Node HL_Demo
begin

text \<open>
  The pet service (\<open>examples/pet.rs\<close>): a state of one optional enum, two methods that replace it and
  one that reads it, and the script of the example's \<open>main\<close>.
\<close>

section \<open>Data and methods\<close>

datatype pet = Dog string u8 string | Cat string u8 string

type_synonym pet_state = "pet option"

record pet_libs =
  k_pet :: "pet_state rkyv"

definition pet_codecs :: "pet_libs \<Rightarrow> pet_state rkyv list" where
  "pet_codecs K = [k_pet K]"

definition pet_fields :: "pet_state \<Rightarrow> pet_state list" where
  "pet_fields s = [s]"

definition pet_law :: "pet_libs \<Rightarrow> bool" where
  [lib_laws]: "pet_law K \<longleftrightarrow> rkyv_law (k_pet K) \<and> (\<forall>p. to_bytes (k_pet K) p \<noteq> None)"

datatype pet_call = BecomeDog string u8 string | BecomeCat string u8 string | MakeANoise

datatype pet_reply = Became | Noise "string option"

definition become_dog :: "string \<Rightarrow> u8 \<Rightarrow> string \<Rightarrow> (pet_state, pet_reply handler_result) body" where
  "become_dog name age breed s = (Some (Dog name age breed), [], Returns (Inr Became))"

definition become_cat :: "string \<Rightarrow> u8 \<Rightarrow> string \<Rightarrow> (pet_state, pet_reply handler_result) body" where
  "become_cat name age breed s = (Some (Cat name age breed), [], Returns (Inr Became))"

definition make_a_noise :: "pet_state \<Rightarrow> pet_reply handler_result outcome" where
  "make_a_noise s =
     (case s of
        Some (Dog name _ _) \<Rightarrow> Returns (Inr (Noise (Some (name @ '' says woof!''))))
      | Some (Cat name _ _) \<Rightarrow> Returns (Inr (Noise (Some (name @ '' says meow!''))))
      | None \<Rightarrow> Returns (Inr (Noise None)))"

fun pet_serves :: "pet_libs \<Rightarrow> pet_call \<Rightarrow> (pet_state, pet_reply handler_result) body" where
  "pet_serves K (BecomeDog name age breed) = with_write (pet_codecs K) pet_fields (become_dog name age breed)"
| "pet_serves K (BecomeCat name age breed) = with_write (pet_codecs K) pet_fields (become_cat name age breed)"
| "pet_serves K MakeANoise = with_read make_a_noise"

section \<open>The calls of \<open>main\<close>\<close>

definition pet_main :: "pet_call list" where
  "pet_main = [BecomeDog ''Rex'' 3 ''German Shepherd'', MakeANoise, BecomeCat ''Mittens'' 2 ''Tabby'', MakeANoise]"

text \<open>\<open>make_a_noise().await.unwrap().unwrap()\<close>: a missing reply, an error or \<open>None\<close> panics.\<close>

fun noise_of :: "pet_reply handler_result outcome \<Rightarrow> string outcome" where
  "noise_of (Returns (Inr (Noise (Some x)))) = Returns x"
| "noise_of _ = Panics"

section \<open>The service keeps the contract of \<open>guarded_service\<close>\<close>

lemma pet_sends_nothing: "sends_nothing (become_dog name age breed)" "sends_nothing (become_cat name age breed)"
  by (simp_all add: sends_nothing_def become_dog_def become_cat_def)

interpretation pet_service: guarded_service "pet_law K" "pet_codecs K" pet_fields "pet_serves K" for K
proof unfold_locales
  show "(\<exists>b. sends_nothing b \<and> pet_serves K c = with_write (pet_codecs K) pet_fields b)
      \<or> (\<exists>f. pet_serves K c = with_read f)" for c
    by (cases c) (auto intro: pet_sends_nothing)
qed (simp_all add: pet_law_def pet_codecs_def pet_fields_def)

text \<open>Its connections subscribe to nothing.\<close>

lemma pet_quiet: "quiet_service (pet_serves K)"
  unfolding quiet_service_def
proof (intro allI)
  show "notified (fst (snd (pet_serves K c s))) = []" for c s
    by (cases c) (simp_all add: become_dog_def become_cat_def with_read_def split: outcome.split)
qed

interpretation pet_node: topic_service "pet_serves K" "\<lambda>s. {}" for K
  by (rule quiet_topic_service [OF pet_quiet])

lemmas pet_write_result = pet_service.write_sends(2) [OF _ pet_sends_nothing(1)]
  pet_service.write_sends(2) [OF _ pet_sends_nothing(2)]

text \<open>The pet after some calls is the last one chosen.\<close>

fun chosen :: "pet_call \<Rightarrow> pet option" where
  "chosen (BecomeDog name age breed) = Some (Dog name age breed)"
| "chosen (BecomeCat name age breed) = Some (Cat name age breed)"
| "chosen MakeANoise = None"

definition last_chosen :: "pet_call list \<Rightarrow> pet_state \<Rightarrow> pet_state" where
  "last_chosen calls s = fold (\<lambda>c s. if chosen c = None then s else chosen c) calls s"

lemma pet_call_state: "fst (pet_serves K c s) = (if chosen c = None then s else chosen c)"
  by (cases c) (simp_all add: become_dog_def become_cat_def with_read_def)

lemma pet_call_result:
  "pet_law K \<Longrightarrow> snd (snd (pet_serves K c s)) = (if c = MakeANoise then make_a_noise s else Returns (Inr Became))"
  by (cases c) (simp_all add: pet_write_result become_dog_def become_cat_def with_read_def)

lemma pet_serve_state: "fst (serve (pet_serves K) calls s) = last_chosen calls s"
  by (induction calls arbitrary: s) (simp_all add: last_chosen_def split_beta Let_def pet_call_state)

lemma pet_serve_results:
  assumes "pet_law K"
  shows "length (snd (snd (serve (pet_serves K) calls s))) = length calls"
    and "i < length calls \<Longrightarrow> snd (snd (serve (pet_serves K) calls s)) ! i =
      (if calls ! i = MakeANoise then make_a_noise (last_chosen (take i calls) s) else Returns (Inr Became))"
proof (induction calls arbitrary: s i)
  case (Cons c calls)
  case 1
  show ?case using Cons by (simp add: split_beta Let_def)
  case 2
  then show ?case using Cons
    by (cases i) (simp_all add: split_beta Let_def pet_call_state pet_call_result [OF assms] last_chosen_def)
qed simp_all

text \<open>A concrete instance of the libraries.\<close>

instance pet :: countable
  by countable_datatype

definition demo_pet :: pet_libs where
  "demo_pet = \<lparr>k_pet = unary_rkyv\<rparr>"

lemma demo_pet_law: "pet_law demo_pet"
  by (simp add: pet_law_def demo_pet_def unary_rkyv_law del: not_None_eq)

section \<open>Properties\<close>

text \<open>
  The service remembers the last pet chosen: each noise is the one of the last pet chosen before
  it (none if there was none), no call panics, and the client's copy of the state is that pet, too.
\<close>

theorem pet_noises:
  assumes "pet_law K" and "serve (pet_serves K) calls s = (s', out, rs)"
  shows "s' = last_chosen calls s \<and> length rs = length calls \<and> Panics \<notin> set rs
    \<and> apply_batches (pet_codecs K) (pet_fields s) (sent_batches out) = pet_fields s'
    \<and> (\<forall>i < length calls. calls ! i = MakeANoise \<longrightarrow> rs ! i = make_a_noise (last_chosen (take i calls) s))"
proof -
  have rs: "length rs = length calls" "\<And>i. i < length calls \<Longrightarrow> rs ! i =
      (if calls ! i = MakeANoise then make_a_noise (last_chosen (take i calls) s) else Returns (Inr Became))"
    using pet_serve_results [OF assms(1), where calls = calls and s = s] assms(2) by simp_all
  have "make_a_noise p \<noteq> Panics" for p by (simp add: make_a_noise_def split: option.split pet.split)
  then have "Panics \<notin> set rs" using rs by (metis in_set_conv_nth outcome.distinct(1))
  then show ?thesis
    using rs pet_service.client_follows [OF assms] pet_serve_state [of K calls s] assms(2) by auto
qed

theorem pet_noises_witness:
  "\<exists>s' out rs. serve (pet_serves demo_pet) pet_main None = (s', out, rs)
    \<and> noise_of (rs ! 1) = Returns ''Rex says woof!'' \<and> noise_of (rs ! 3) = Returns ''Mittens says meow!''"
proof -
  obtain s' out rs where r: "serve (pet_serves demo_pet) pet_main None = (s', out, rs)"
    by (cases "serve (pet_serves demo_pet) pet_main None")
  from pet_noises [OF demo_pet_law r]
  have "rs ! 1 = make_a_noise (last_chosen (take 1 pet_main) None)" "rs ! 3 = make_a_noise (last_chosen (take 3 pet_main) None)"
    by (simp_all add: pet_main_def nth_Cons')
  then show ?thesis using r by (simp add: pet_main_def last_chosen_def make_a_noise_def)
qed

end
