(* ===== verification/HL_Loadtest.thy ===== *)
theory HL_Loadtest
  imports HL_Macro HL_Node HL_Demo "HOL-Library.Product_Lexorder"
begin

text \<open>
  The load-testing project (\<open>testing-project/\<close>): the handler it writes by hand instead of having it
  generated, the collection of timings, and the statistics and chart data computed from them.
\<close>

section \<open>The handler\<close>

record load_state =
  load_counter :: u32

datatype load_call = LtIncrement u32 | LtDecrement u32 | LtGet | LtTestOverhead

record load_libs =
  lt_call :: "load_call rkyv"
  lt_u32 :: "u32 rkyv"
  lt_unit :: "unit rkyv"

definition load_codecs :: "load_libs \<Rightarrow> u32 rkyv list" where
  "load_codecs K = [lt_u32 K]"

definition load_fields :: "load_state \<Rightarrow> u32 list" where
  "load_fields s = [load_counter s]"

text \<open>A number can be serialized; the unit value is a type without bytes.\<close>

definition load_law :: "load_libs \<Rightarrow> bool" where
  [lib_laws]: "load_law K \<longleftrightarrow> rkyv_law (lt_call K) \<and> rkyv_law (lt_u32 K) \<and> (\<forall>n. to_bytes (lt_u32 K) n \<noteq> None)
     \<and> rkyv_law (lt_unit K) \<and> to_bytes (lt_unit K) () = Some []"

type_synonym load_body = "(load_state, bytes handler_result) body"

text \<open>The handler's constructor, with the default state; the handles are known by numbers.\<close>

definition load_handler_new :: "nat \<Rightarrow> nat \<Rightarrow> u32 handler" where
  "load_handler_new subscriptions_chan events_chan =
     \<lparr>hd_state = controller_new (load_fields \<lparr>load_counter = 0\<rparr>), hd_subscriptions = subscriptions_chan, hd_events = events_chan\<rparr>"

text \<open>The reply is serialized before the write guard is dropped; \<open>survives\<close> as for \<open>ser\<close>.\<close>

definition load_increment :: "load_libs \<Rightarrow> bool \<Rightarrow> bool \<Rightarrow> u32 \<Rightarrow> load_body" where
  "load_increment K checks survives amount s =
     (case word_add checks (load_counter s) amount of
        Panics \<Rightarrow> (s, [], Panics)
      | Returns n \<Rightarrow> (s\<lparr>load_counter := n\<rparr>, [], ser survives (lt_u32 K) n))"

definition load_decrement :: "load_libs \<Rightarrow> bool \<Rightarrow> bool \<Rightarrow> u32 \<Rightarrow> load_body" where
  "load_decrement K checks survives amount s =
     (case word_sub checks (load_counter s) amount of
        Panics \<Rightarrow> (s, [], Panics)
      | Returns n \<Rightarrow> (s\<lparr>load_counter := n\<rparr>, [], ser survives (lt_u32 K) n))"

definition load_handle :: "load_libs \<Rightarrow> bool \<Rightarrow> bool \<Rightarrow> bytes \<Rightarrow> load_body" where
  "load_handle K checks survives input =
     (case de (lt_call K) input of
        Inl e \<Rightarrow> (\<lambda>s. (s, [], Returns (Inl e)))
      | Inr (LtIncrement amount) \<Rightarrow> with_write (load_codecs K) load_fields (load_increment K checks survives amount)
      | Inr (LtDecrement amount) \<Rightarrow> with_write (load_codecs K) load_fields (load_decrement K checks survives amount)
      | Inr LtGet \<Rightarrow> with_read (\<lambda>s. ser survives (lt_u32 K) (load_counter s))
      | Inr LtTestOverhead \<Rightarrow> (\<lambda>s. (s, [], Returns (Inr []))))"

section \<open>Collecting timings\<close>

text \<open>The standard library's \<open>Duration\<close>, its order and \<open>as_micros\<close>.\<close>

datatype duration = Duration (dur_secs: u64) (dur_nanos: u32)

instantiation duration :: linorder
begin

definition less_eq_duration :: "duration \<Rightarrow> duration \<Rightarrow> bool" where
  "less_eq_duration a b \<longleftrightarrow> (dur_secs a, dur_nanos a) \<le> (dur_secs b, dur_nanos b)"

definition less_duration :: "duration \<Rightarrow> duration \<Rightarrow> bool" where
  "less_duration a b \<longleftrightarrow> (dur_secs a, dur_nanos a) < (dur_secs b, dur_nanos b)"

instance
  by standard (auto simp: less_eq_duration_def less_duration_def duration.expand)

end

definition as_micros :: "duration \<Rightarrow> u128" where
  "as_micros d = ucast (dur_secs d) * 1000000 + ucast (dur_nanos d div 1000)"

text \<open>
  One load task: per invocation, whether the call returned a result and the time it took. The
  first call that did not is unwrapped and ends the task; a failed send is ignored.
\<close>

fun load_task :: "(bool \<times> duration) list \<Rightarrow> duration list \<times> unit outcome" where
  "load_task [] = ([], Returns ())"
| "load_task ((ok, elapsed) # rest) =
     (if ok then (let (sent, r) = load_task rest in (elapsed # sent, r)) else ([], Panics))"

text \<open>The receiving loop: \<open>None\<close> is ten milliseconds without a timing, or a closed channel.\<close>

fun collect_timings :: "duration option list \<Rightarrow> duration list \<Rightarrow> duration list" where
  "collect_timings [] timings = timings"
| "collect_timings (Some elapsed # rest) timings = collect_timings rest (timings @ [elapsed])"
| "collect_timings (None # rest) timings = timings"

section \<open>Statistics\<close>

text \<open>Floating-point operations are an argument.\<close>

record 'f float_ops =
  f_of_u128 :: "u128 \<Rightarrow> 'f"
  f_zero :: 'f
  f_add :: "'f \<Rightarrow> 'f \<Rightarrow> 'f"
  f_sub :: "'f \<Rightarrow> 'f \<Rightarrow> 'f"
  f_mul :: "'f \<Rightarrow> 'f \<Rightarrow> 'f"
  f_div :: "'f \<Rightarrow> 'f \<Rightarrow> 'f"
  f_sqrt :: "'f \<Rightarrow> 'f"
  f_round :: "'f \<Rightarrow> 'f"
  f_as_u128 :: "'f \<Rightarrow> u128"

fun sum_u128 :: "bool \<Rightarrow> u128 list \<Rightarrow> u128 \<Rightarrow> u128 outcome" where
  "sum_u128 checks [] acc = Returns acc"
| "sum_u128 checks (x # xs) acc = and_then (word_add checks acc x) (sum_u128 checks xs)"

definition average :: "bool \<Rightarrow> duration list \<Rightarrow> u128 outcome" where
  "average checks timings =
     and_then (sum_u128 checks (map as_micros timings) 0) (\<lambda>sum. word_divide sum (of_nat (length timings)))"

fun squares :: "bool \<Rightarrow> u128 \<Rightarrow> duration list \<Rightarrow> u128 list outcome" where
  "squares checks avg [] = Returns []"
| "squares checks avg (t # ts) =
     and_then (word_sub checks (as_micros t) avg) (\<lambda>d.
       and_then (word_mul checks d d) (\<lambda>q.
         and_then (squares checks avg ts) (\<lambda>qs. Returns (q # qs))))"

definition checked_div :: "u128 \<Rightarrow> u128 \<Rightarrow> u128 option" where
  "checked_div a b = (if b = 0 then None else Some (a div b))"

definition std_dev_of :: "'f float_ops \<Rightarrow> bool \<Rightarrow> u128 \<Rightarrow> duration list \<Rightarrow> u128 outcome" where
  "std_dev_of F checks avg timings =
     and_then (squares checks avg timings) (\<lambda>qs.
       and_then (sum_u128 checks qs 0) (\<lambda>sum.
         Returns (f_as_u128 F (f_round F (unwrap_or
           (map_option (f_sqrt F) (map_option (f_of_u128 F) (checked_div sum (of_nat (length timings))))) (f_zero F))))))"

text \<open>The counters are \<open>i32\<close>s.\<close>

definition inc_i32 :: "bool \<Rightarrow> int \<Rightarrow> int outcome" where
  "inc_i32 checks n =
     (if n = 2147483647 then (if checks then Panics else Returns (- 2147483648)) else Returns (n + 1))"

fun count_loop :: "bool \<Rightarrow> (duration \<Rightarrow> bool outcome) \<Rightarrow> duration list \<Rightarrow> int \<Rightarrow> int outcome" where
  "count_loop checks test [] n = Returns n"
| "count_loop checks test (t # ts) n =
     and_then (test t) (\<lambda>b. and_then (if b then inc_i32 checks n else Returns n) (count_loop checks test ts))"

record load_stats =
  st_avg :: u128
  st_min :: u128
  st_max :: u128
  st_med :: u128
  st_dev :: u128
  st_below :: int
  st_above :: int

fun first :: "'a list \<Rightarrow> 'a option" where
  "first [] = None"
| "first (x # xs) = Some x"

fun last_opt :: "'a list \<Rightarrow> 'a option" where
  "last_opt [] = None"
| "last_opt [x] = Some x"
| "last_opt (x # xs) = last_opt xs"

text \<open>From \<open>timings.sort()\<close> to the counts; \<open>timings\<close> is the sorted vector.\<close>

definition load_statistics :: "'f float_ops \<Rightarrow> bool \<Rightarrow> duration list \<Rightarrow> load_stats outcome" where
  "load_statistics F checks unsorted =
     (let timings = sort unsorted in
      and_then (average checks timings) (\<lambda>avg.
      and_then (unwrap (first timings)) (\<lambda>lo.
      and_then (unwrap (last_opt timings)) (\<lambda>hi.
      and_then (array_get timings (length timings div 2)) (\<lambda>med.
      and_then (std_dev_of F checks avg timings) (\<lambda>dev.
      and_then (count_loop checks (\<lambda>t. and_then (word_sub checks avg dev) (\<lambda>b. Returns (as_micros t < b))) timings 0) (\<lambda>below.
      and_then (count_loop checks (\<lambda>t. and_then (word_add checks avg dev) (\<lambda>b. Returns (b < as_micros t))) timings 0) (\<lambda>above.
        Returns \<lparr>st_avg = avg, st_min = as_micros lo, st_max = as_micros hi, st_med = as_micros med,
          st_dev = dev, st_below = below, st_above = above\<rparr>))))))))"

section \<open>Chart data\<close>

text \<open>The percentile curve: the value at index \<open>len * i / 100\<close> of the sorted timings.\<close>

definition percentile_at :: "duration list \<Rightarrow> nat \<Rightarrow> (u128 \<times> u128) outcome" where
  "percentile_at timings i =
     and_then (array_get timings (length timings * i div 100)) (\<lambda>t. Returns (of_nat i, as_micros t))"

fun percentile_loop :: "duration list \<Rightarrow> nat list \<Rightarrow> (u128 \<times> u128) list \<Rightarrow> (u128 \<times> u128) list outcome" where
  "percentile_loop timings [] pts = Returns pts"
| "percentile_loop timings (i # is) pts =
     and_then (percentile_at timings i) (\<lambda>p. percentile_loop timings is (pts @ [p]))"

definition percentile_data :: "duration list \<Rightarrow> (u128 \<times> u128) list outcome" where
  "percentile_data timings = percentile_loop timings [0..<100] []"

text \<open>The histogram: counts per microsecond in a hash map, taken out in its order and sorted.\<close>

fun histogram_loop :: "bool \<Rightarrow> duration list \<Rightarrow> (u128 \<times> u128) list \<Rightarrow> (u128 \<times> u128) list outcome" where
  "histogram_loop checks [] h = Returns h"
| "histogram_loop checks (t # ts) h =
     (let bin = as_micros t in
      and_then (word_add checks (unwrap_or (map_of h bin) 0) 1) (\<lambda>n. histogram_loop checks ts (hm_insert bin n h)))"

definition histogram_data ::
  "bool \<Rightarrow> ((u128 \<times> u128) list \<Rightarrow> (u128 \<times> u128) list) \<Rightarrow> duration list \<Rightarrow> (u128 \<times> u128) list outcome" where
  "histogram_data checks iter timings =
     and_then (histogram_loop checks timings []) (\<lambda>h. Returns (sort_key fst (iter h)))"

text \<open>What the histogram chart is given: its height, and the bars narrowed to \<open>u32\<close>.\<close>

definition histogram_height :: "(u128 \<times> u128) list \<Rightarrow> u32" where
  "histogram_height d = ucast (foldl max 0 (map snd d))"

definition histogram_bars :: "(u128 \<times> u128) list \<Rightarrow> (u32 \<times> u32) list" where
  "histogram_bars d = map (\<lambda>(x, y). (ucast x, ucast y)) d"

text \<open>The scatter plot: its ranges, its points, and the lines of the average and the deviation.\<close>

fun deviation_loop :: "'f float_ops \<Rightarrow> u128 \<Rightarrow> duration list \<Rightarrow> 'f \<Rightarrow> 'f" where
  "deviation_loop F avg [] variance = variance"
| "deviation_loop F avg (t # ts) variance =
     (let diff = f_sub F (f_of_u128 F (as_micros t)) (f_of_u128 F avg)
      in deviation_loop F avg ts (f_add F variance (f_mul F diff diff)))"

definition standard_deviation :: "'f float_ops \<Rightarrow> bool \<Rightarrow> duration list \<Rightarrow> 'f outcome" where
  "standard_deviation F checks timings =
     and_then (average checks timings) (\<lambda>avg.
       Returns (f_sqrt F (f_div F (deviation_loop F avg timings (f_zero F)) (f_of_u128 F (of_nat (length timings))))))"

record scatter =
  sc_width :: u128
  sc_height :: u128
  sc_points :: "(u128 \<times> u128) list"
  sc_avg :: "(u128 \<times> u128) list"
  sc_below :: "(u128 \<times> u128) list"
  sc_above :: "(u128 \<times> u128) list"

definition scatter_points :: "duration list \<Rightarrow> (u128 \<times> u128) list" where
  "scatter_points timings = map (\<lambda>(i, t). (of_nat i, as_micros t)) (enumerate 0 timings)"

definition iter_max :: "duration list \<Rightarrow> duration option" where
  "iter_max ts = (case ts of [] \<Rightarrow> None | t # ts \<Rightarrow> Some (foldl max t ts))"

definition scatter_data :: "'f float_ops \<Rightarrow> bool \<Rightarrow> duration list \<Rightarrow> scatter outcome" where
  "scatter_data F checks timings =
     (let n = of_nat (length timings) in
      and_then (unwrap (iter_max timings)) (\<lambda>top.
      and_then (average checks timings) (\<lambda>avg.
      and_then (standard_deviation F checks timings) (\<lambda>dev.
      and_then (word_sub checks avg (f_as_u128 F dev)) (\<lambda>lower.
      and_then (word_add checks avg (f_as_u128 F dev)) (\<lambda>upper.
        Returns \<lparr>sc_width = n, sc_height = as_micros top,
          sc_points = scatter_points timings,
          sc_avg = [(0, avg), (n, avg)], sc_below = [(0, lower), (n, lower)], sc_above = [(0, upper), (n, upper)]\<rparr>))))))"

text \<open>What \<open>main\<close> computes from the collected timings, in its order.\<close>

definition load_report ::
  "'f float_ops \<Rightarrow> bool \<Rightarrow> ((u128 \<times> u128) list \<Rightarrow> (u128 \<times> u128) list) \<Rightarrow> duration list \<Rightarrow>
   (scatter \<times> (u32 \<times> (u32 \<times> u32) list) \<times> load_stats \<times> (u128 \<times> u128) list) outcome" where
  "load_report F checks iter timings =
     and_then (scatter_data F checks timings) (\<lambda>sc.
     and_then (histogram_data checks iter timings) (\<lambda>h.
     and_then (load_statistics F checks timings) (\<lambda>st.
     and_then (percentile_data (sort timings)) (\<lambda>p.
       Returns (sc, (histogram_height h, histogram_bars h), st, p)))))"

section \<open>Microseconds\<close>

definition micros :: "duration list \<Rightarrow> nat list" where
  "micros ts = map (\<lambda>t. unat (as_micros t)) ts"

lemma length_micros [simp]: "length (micros ts) = length ts"
  by (simp add: micros_def)

text \<open>
  The range in which the sums are exact: fewer than \<open>2^31\<close> timings, each below \<open>2^48\<close> microseconds
  (eight years), with sub-second parts below a second, as \<open>Duration\<close> guarantees.
\<close>

definition load_bounds :: "duration list \<Rightarrow> bool" where
  "load_bounds ts \<longleftrightarrow> length ts < 2147483648
     \<and> (\<forall>t \<in> set ts. dur_nanos t < 1000000000 \<and> unat (as_micros t) < 281474976710656)"

lemma unat_as_micros: "unat (as_micros d) = unat (dur_secs d) * 1000000 + unat (dur_nanos d) div 1000"
proof -
  let ?n = "unat (dur_secs d) * 1000000 + unat (dur_nanos d) div 1000"
  have "unat (dur_secs d) < 18446744073709551616" "unat (dur_nanos d) < 4294967296"
    using unsigned_less [of "dur_secs d", where 'a = nat] unsigned_less [of "dur_nanos d", where 'a = nat] by simp_all
  then have "?n < 340282366920938463463374607431768211456" by linarith
  moreover have "as_micros d = of_nat ?n"
    by (simp add: as_micros_def unat_div flip: of_nat_unat [of "dur_nanos d div 1000"])
  ultimately show ?thesis by (simp add: unat_of_nat del: of_nat_add of_nat_mult)
qed

lemma as_micros_mono:
  assumes "d \<le> e" "dur_nanos d < 1000000000" "dur_nanos e < 1000000000"
  shows "unat (as_micros d) \<le> unat (as_micros e)"
proof -
  have n: "unat (dur_nanos d) < 1000000000" "unat (dur_nanos e) < 1000000000"
    using assms(2,3) by (simp_all add: word_less_nat_alt)
  have "unat (dur_secs d) < unat (dur_secs e) \<or> unat (dur_secs d) = unat (dur_secs e) \<and> unat (dur_nanos d) \<le> unat (dur_nanos e)"
    using assms(1) by (auto simp: less_eq_duration_def word_less_nat_alt word_le_nat_alt)
  then show ?thesis
  proof
    assume "unat (dur_secs d) < unat (dur_secs e)"
    moreover have "unat (dur_nanos d) div 1000 < 1000000" using n(1) by linarith
    ultimately show ?thesis unfolding unat_as_micros by linarith
  next
    assume "unat (dur_secs d) = unat (dur_secs e) \<and> unat (dur_nanos d) \<le> unat (dur_nanos e)"
    then show ?thesis unfolding unat_as_micros by (simp add: div_le_mono)
  qed
qed

lemma micros_sort:
  assumes "load_bounds ts"
  shows "micros (sort ts) = sort (micros ts)"
proof -
  have "sorted_wrt (\<lambda>x y. unat (as_micros x) \<le> unat (as_micros y)) (sort ts)"
    by (rule sorted_wrt_mono_rel [OF _ sorted_sort]) (use assms in \<open>simp add: load_bounds_def as_micros_mono\<close>)
  then have "sorted (micros (sort ts))" by (simp add: micros_def sorted_map)
  then show ?thesis by (intro properties_for_sort [symmetric]) (simp_all add: micros_def)
qed

lemma load_bounds_sort [simp]: "load_bounds (sort ts) = load_bounds ts"
  by (simp add: load_bounds_def)

section \<open>Sums, averages and squares\<close>

lemma sum_u128_exact:
  "sum_list (map unat xs) + unat acc < 340282366920938463463374607431768211456 \<Longrightarrow>
   sum_u128 checks xs acc = Returns (of_nat (sum_list (map unat xs) + unat acc))"
proof (induction xs arbitrary: acc)
  case (Cons x xs)
  have no: "unat acc + unat x < 340282366920938463463374607431768211456" using Cons.prems by simp
  then have u: "unat (acc + x) = unat acc + unat x" by (simp add: unat_word_ariths)
  have w: "word_add checks acc x = Returns (acc + x)" using no by (simp add: word_add_def)
  have "sum_u128 checks xs (acc + x) = Returns (of_nat (sum_list (map unat xs) + unat (acc + x)))"
    by (rule Cons.IH) (use Cons.prems u in simp)
  moreover have "sum_list (map unat xs) + unat (acc + x) = sum_list (map unat (x # xs)) + unat acc" using u by simp
  ultimately show ?case by (simp only: sum_u128.simps w and_then.simps)
qed simp

lemma sum_list_le: "(\<And>x. x \<in> set xs \<Longrightarrow> x \<le> b) \<Longrightarrow> sum_list xs \<le> length xs * b" for b :: nat
  by (induction xs) (auto simp: add_mono)

lemma mean_less:
  assumes "\<And>x. x \<in> set xs \<Longrightarrow> x < b" "xs \<noteq> []"
  shows "sum_list xs div length xs < b"
proof -
  have "0 < b" using assms by (cases xs) fastforce+
  moreover have "sum_list xs \<le> length xs * (b - 1)"
    by (rule sum_list_le) (use assms(1) in fastforce)
  ultimately have "sum_list xs < length xs * b"
    using assms(2) by (metis diff_less length_greater_0_conv mult_less_mono2 order_le_less_trans zero_less_one)
  then show ?thesis by (simp add: less_mult_imp_div_less mult.commute)
qed

lemma average_exact:
  assumes "load_bounds ts" "ts \<noteq> []"
  shows "average checks ts = Returns (of_nat (sum_list (micros ts) div length ts))"
    and "sum_list (micros ts) div length ts < 281474976710656"
proof -
  have n: "length ts < 2147483648" using assms(1) by (simp add: load_bounds_def)
  have x: "x < 281474976710656" if "x \<in> set (micros ts)" for x
    using assms(1) that by (auto simp: load_bounds_def micros_def)
  then show "sum_list (micros ts) div length ts < 281474976710656"
    using mean_less [of "micros ts"] assms(2) by (simp add: micros_def)
  have "sum_list (micros ts) \<le> length (micros ts) * 281474976710656" by (rule sum_list_le) (use x in fastforce)
  also have "\<dots> \<le> 2147483648 * 281474976710656" using n by (simp add: micros_def)
  finally have s: "sum_list (micros ts) < 340282366920938463463374607431768211456" by simp
  have "sum_u128 checks (map as_micros ts) 0 = Returns (of_nat (sum_list (micros ts)))"
    using sum_u128_exact [of "map as_micros ts" 0 checks] s by (simp add: micros_def comp_def)
  moreover have "unat (of_nat (length ts) :: u128) = length ts" using n by (simp add: unat_of_nat)
  moreover from this have "(of_nat (length ts) :: u128) \<noteq> 0" using assms(2) by (metis length_0_conv unat_0)
  moreover have "(of_nat (sum_list (micros ts)) :: u128) div of_nat (length ts) = of_nat (sum_list (micros ts) div length ts)"
    using s n order.strict_trans1 [OF div_le_dividend s] by (simp add: word_unat_eq_iff unat_div unat_of_nat)
  ultimately show "average checks ts = Returns (of_nat (sum_list (micros ts) div length ts))"
    by (simp add: average_def word_divide_def)
qed

text \<open>
  The square of a difference of words is the square of the difference, also when the difference
  itself has wrapped around.
\<close>

definition sq_diff :: "nat \<Rightarrow> nat \<Rightarrow> nat" where
  "sq_diff a b = nat ((int a - int b)\<^sup>2)"

lemma sq_diff_less:
  assumes "a < 281474976710656" "b < 281474976710656"
  shows "sq_diff a b < 79228162514264337593543950336"
proof -
  have "\<bar>int a - int b\<bar> < 281474976710656" using assms by linarith
  then have "(int a - int b)\<^sup>2 < 281474976710656\<^sup>2" 
    using power_strict_mono [OF _ abs_ge_zero, of "int a - int b" 281474976710656 2] by simp
  then show ?thesis by (simp add: sq_diff_def nat_less_iff)
qed

lemma word_sq_diff:
  fixes a b :: u128
  assumes "unat a < 281474976710656" "unat b < 281474976710656"
  shows "unat ((a - b) * (a - b)) = sq_diff (unat a) (unat b)"
proof -
  have "(a - b) * (a - b) = word_of_int ((int (unat a) - int (unat b))\<^sup>2)"
    by (simp add: power2_eq_square)
  also have "\<dots> = of_nat (sq_diff (unat a) (unat b))" by (simp add: sq_diff_def)
  finally show ?thesis using sq_diff_less [OF assms] by (simp add: unat_of_nat)
qed

lemma squares_exact:
  assumes "\<forall>t \<in> set ts. unat (as_micros t) < 281474976710656" "unat avg < 281474976710656"
  shows "squares checks avg ts =
    (if checks \<and> (\<exists>t \<in> set ts. as_micros t < avg) then Panics
     else Returns (map (\<lambda>t. (as_micros t - avg) * (as_micros t - avg)) ts))"
  using assms(1)
proof (induction ts)
  case (Cons t ts)
  have "word_mul checks (as_micros t - avg) (as_micros t - avg)
      = Returns ((as_micros t - avg) * (as_micros t - avg))" if "\<not> (checks \<and> as_micros t < avg)"
  proof (cases checks)
    case True
    then have "avg \<le> as_micros t" using that by simp
    then have "unat (as_micros t - avg) < 281474976710656" using Cons.prems by (simp add: unat_sub word_le_nat_alt less_imp_diff_less)
    then have "unat (as_micros t - avg) * unat (as_micros t - avg) \<le> 281474976710656 * 281474976710656"
      by (intro mult_le_mono) simp_all
    then show ?thesis by (simp add: word_mul_def)
  qed simp
  then show ?case using Cons by (auto simp: word_sub_def)
qed simp

definition variance :: "nat list \<Rightarrow> nat" where
  "variance xs = sum_list (map (\<lambda>x. sq_diff x (sum_list xs div length xs)) xs) div length xs"

definition deviation :: "'f float_ops \<Rightarrow> nat list \<Rightarrow> u128" where
  "deviation F xs = f_as_u128 F (f_round F (f_sqrt F (f_of_u128 F (of_nat (variance xs)))))"

lemma std_dev_exact:
  assumes "load_bounds ts" "ts \<noteq> []" "avg = of_nat (sum_list (micros ts) div length ts)"
  shows "std_dev_of F checks avg ts =
    (if checks \<and> (\<exists>t \<in> set ts. as_micros t < avg) then Panics else Returns (deviation F (micros ts)))"
proof -
  let ?m = "sum_list (micros ts) div length ts"
  let ?qs = "map (\<lambda>t. (as_micros t - avg) * (as_micros t - avg)) ts"
  have t: "\<forall>t \<in> set ts. unat (as_micros t) < 281474976710656" and n: "length ts < 2147483648"
    using assms(1) by (simp_all add: load_bounds_def)
  have avg: "unat avg = ?m" "?m < 281474976710656"
    using average_exact(2) [OF assms(1,2)] by (simp_all add: assms(3) unat_of_nat)
  have q: "map unat ?qs = map (\<lambda>x. sq_diff x ?m) (micros ts)"
    using t avg by (simp add: micros_def word_sq_diff)
  have "sum_list (map unat ?qs) \<le> length (map unat ?qs) * 79228162514264337593543950336"
    unfolding q by (rule sum_list_le) (use t avg(2) in \<open>auto simp: micros_def intro: less_imp_le sq_diff_less\<close>)
  also have "\<dots> \<le> 2147483648 * 79228162514264337593543950336" using n by simp
  finally have s: "sum_list (map unat ?qs) < 340282366920938463463374607431768211456" by simp
  have "checked_div (of_nat (sum_list (map unat ?qs))) (of_nat (length ts)) = Some (of_nat (variance (micros ts)))"
  proof -
    have "variance (micros ts) = sum_list (map unat ?qs) div length ts" unfolding variance_def q by simp
    moreover have "(of_nat (length ts) :: u128) \<noteq> 0"
      using n assms(2) by (simp add: word_unat_eq_iff unat_of_nat)
    ultimately show ?thesis
      using s n order.strict_trans1 [OF div_le_dividend s]
      by (simp add: checked_div_def word_unat_eq_iff unat_div unat_of_nat del: map_map)
  qed
  moreover have "sum_u128 checks ?qs 0 = Returns (of_nat (sum_list (map unat ?qs)))"
    using sum_u128_exact [of ?qs 0 checks] s by simp
  moreover have "unat avg < 281474976710656" using avg by simp
  ultimately show ?thesis
    by (simp add: std_dev_of_def squares_exact [OF t] deviation_def del: map_map)
qed

section \<open>Counting\<close>

lemma count_loop_exact:
  assumes "0 \<le> n" "n + int (length ts) < 2147483648"
  shows "count_loop checks (\<lambda>t. Returns (P t)) ts n = Returns (n + int (length (filter P ts)))"
  using assms by (induction ts arbitrary: n) (auto simp: inc_i32_def)

lemma count_loop_panics: "ts \<noteq> [] \<Longrightarrow> count_loop checks (\<lambda>t. Panics) ts n = Panics"
  by (cases ts) simp_all

lemma first_last:
  "ts \<noteq> [] \<Longrightarrow> first ts = Some (hd ts)" "ts \<noteq> [] \<Longrightarrow> last_opt ts = Some (last ts)"
  by (cases ts; simp) (induction ts rule: last_opt.induct; simp)

lemma count_below:
  "length (filter (\<lambda>t. as_micros t < b) ts) = length (filter (\<lambda>x. x < unat b) (micros ts))"
  "length (filter (\<lambda>t. b < as_micros t) ts) = length (filter (\<lambda>x. unat b < x) (micros ts))"
  by (simp_all add: micros_def word_less_nat_alt filter_map comp_def)

lemma ex_less_hd: "sorted xs \<Longrightarrow> xs \<noteq> [] \<Longrightarrow> (\<exists>x \<in> set xs. x < a) \<longleftrightarrow> hd xs < a" for a :: nat
  by (cases xs) auto

lemma threshold_count:
  assumes "length ts < 2147483648" "ts \<noteq> []"
  shows "count_loop checks (\<lambda>t. and_then w (\<lambda>b. Returns (Q b t))) ts 0 =
    and_then w (\<lambda>b. Returns (int (length (filter (Q b) ts))))"
  using assms by (cases w) (simp_all add: count_loop_panics count_loop_exact)

lemma load_statistics_form:
  assumes "load_bounds ts" "ts \<noteq> []" "xs = sort (micros ts)" "avg = sum_list xs div length xs" "dev = deviation F xs"
  shows "load_statistics F checks ts =
    (if checks \<and> hd xs < avg then Panics
     else and_then (word_sub checks (of_nat avg) dev) (\<lambda>b.
          and_then (word_add checks (of_nat avg) dev) (\<lambda>c.
            Returns \<lparr>st_avg = of_nat avg, st_min = of_nat (hd xs), st_max = of_nat (last xs),
              st_med = of_nat (xs ! (length xs div 2)), st_dev = dev,
              st_below = int (length (filter (\<lambda>x. x < unat b) xs)),
              st_above = int (length (filter (\<lambda>x. unat c < x) xs))\<rparr>)))"
proof -
  let ?ts = "sort ts"
  have ne: "?ts \<noteq> []" using assms(2) by (metis length_0_conv length_sort)
  then have b: "load_bounds ?ts" "?ts \<noteq> []" "length ?ts < 2147483648" "length ?ts div 2 < length ?ts"
    using assms(1,2) by (auto simp: load_bounds_def)
  have xs: "micros ?ts = xs" "length xs = length ?ts" using micros_sort [OF assms(1)] assms(3) by (simp_all add: micros_def)
  have avg: "avg = sum_list (micros ?ts) div length ?ts" by (simp add: xs assms(4))
  have "as_micros t < of_nat avg \<longleftrightarrow> unat (as_micros t) < avg" for t
    using average_exact(2) [OF b(1,2)] by (simp add: avg word_less_nat_alt unat_of_nat)
  moreover have "(\<exists>t \<in> set ?ts. unat (as_micros t) < avg) \<longleftrightarrow> (\<exists>x \<in> set xs. x < avg)"
    unfolding xs(1) [symmetric] micros_def by auto
  moreover have "(\<exists>x \<in> set xs. x < avg) \<longleftrightarrow> hd xs < avg"
    by (rule ex_less_hd) (use b(2) xs(2) assms(3) in \<open>simp, metis length_0_conv\<close>)
  ultimately have dev: "std_dev_of F checks (of_nat avg) ?ts = (if checks \<and> hd xs < avg then Panics else Returns dev)"
    using std_dev_exact [OF b(1,2) arg_cong [OF avg, of of_nat], of F checks] unfolding xs(1) assms(5) by simp
  have nth: "as_micros (hd ?ts) = of_nat (hd xs)" "as_micros (last ?ts) = of_nat (last xs)"
    "as_micros (?ts ! (length ts div 2)) = of_nat (xs ! (length ts div 2))"
    using b(2,4) unfolding xs(1) [symmetric] micros_def by (simp_all add: hd_map last_map)
  have av: "average checks ?ts = Returns (of_nat avg)" using average_exact(1) [OF b(1,2)] unfolding avg .
  have "length ts < 2147483648" "length ts div 2 < length ts" "length xs = length ts" using b(3,4) xs(2) by simp_all
  then show ?thesis
    using b(2) by (simp add: load_statistics_def Let_def first_last dev av nth threshold_count count_below xs(1) and_then_assoc)
qed

section \<open>Percentiles and histogram\<close>

lemma percentile_loop_map:
  assumes "ts \<noteq> []" "\<forall>i \<in> set is. i < 100"
  shows "percentile_loop ts is pts = Returns (pts @ map (\<lambda>i. (of_nat i, as_micros (ts ! (length ts * i div 100)))) is)"
  using assms(2)
proof (induction "is" arbitrary: pts)
  case (Cons i "is")
  have "length ts * i div 100 < length ts"
    using Cons.prems assms(1) by (intro less_mult_imp_div_less) simp
  then show ?case using Cons by (simp add: percentile_at_def)
qed simp

definition bins :: "duration list \<Rightarrow> u128 list" where
  "bins ts = map as_micros ts"

lemma histogram_loop_counts:
  assumes "distinct (map fst h)" "\<And>b n. map_of h b = Some n \<Longrightarrow> unat n + length ts < 340282366920938463463374607431768211456"
    and "length ts < 340282366920938463463374607431768211456"
  shows "\<exists>h'. histogram_loop checks ts h = Returns h' \<and> distinct (map fst h')
    \<and> (\<forall>b. map_of h' b = (if b \<in> set (bins ts)
          then Some (unwrap_or (map_of h b) 0 + of_nat (count_list (bins ts) b)) else map_of h b))"
  using assms
proof (induction ts arbitrary: h)
  case (Cons t ts)
  let ?bin = "as_micros t"
  let ?n = "unwrap_or (map_of h ?bin) 0"
  have n: "unat ?n + Suc (length ts) < 340282366920938463463374607431768211456"
    using Cons.prems by (cases "map_of h ?bin") auto
  then have w: "word_add checks ?n 1 = Returns (?n + 1)" by (simp add: word_add_def)
  have u: "unat (?n + 1) = unat ?n + 1" using n by (simp add: unat_word_ariths)
  let ?h = "hm_insert ?bin (?n + 1) h"
  have "\<exists>h'. histogram_loop checks ts ?h = Returns h' \<and> distinct (map fst h')
    \<and> (\<forall>b. map_of h' b = (if b \<in> set (bins ts)
          then Some (unwrap_or (map_of ?h b) 0 + of_nat (count_list (bins ts) b)) else map_of ?h b))"
  proof (rule Cons.IH)
    show "unat m + length ts < 340282366920938463463374607431768211456" if "map_of ?h b = Some m" for b m
    proof (cases "b = ?bin")
      case True
      then have "m = ?n + 1" using that by simp
      then have "unat m = unat ?n + 1" by (simp only: u)
      then show ?thesis using n by linarith
    next
      case False
      then have "unat m + length (t # ts) < 340282366920938463463374607431768211456"
        using that by (intro Cons.prems(2)) simp
      then show ?thesis by simp
    qed
  qed (use Cons.prems in simp_all)
  then obtain h' where h': "histogram_loop checks ts ?h = Returns h'" "distinct (map fst h')"
    "\<And>b. map_of h' b = (if b \<in> set (bins ts)
        then Some (unwrap_or (map_of ?h b) 0 + of_nat (count_list (bins ts) b)) else map_of ?h b)" by blast
  have "map_of h' b = (if b \<in> set (bins (t # ts))
      then Some (unwrap_or (map_of h b) 0 + of_nat (count_list (bins (t # ts)) b)) else map_of h b)" for b
  proof (cases "b \<in> set (bins ts)")
    case True
    then show ?thesis unfolding h'(3) by (cases "b = ?bin") (simp_all add: bins_def ac_simps)
  next
    case False
    then have "count_list (bins ts) b = 0" by (simp add: count_list_0_iff)
    then show ?thesis unfolding h'(3) using False by (cases "b = ?bin") (simp_all add: bins_def)
  qed
  then show ?case using h' w by (simp add: Let_def)
qed (simp add: bins_def)

lemma histogram_sorted:
  assumes "iter_law iter" "distinct (map fst h)" "set (map fst h) = set bs"
  shows "sort_key fst (iter h) = map (\<lambda>b. (b, the (map_of h b))) (sorted_list_of_set (set bs))"
proof -
  let ?d = "sort_key fst (iter h)"
  have m: "mset ?d = mset h" using assms(1) by (simp add: iter_law_def)
  then have set: "set ?d = set h" by (metis set_mset_mset)
  have dist: "distinct (map fst ?d)" using m assms(2) by (metis mset_map mset_eq_imp_distinct_iff)
  have "sorted_wrt (<) (map fst ?d)" using dist by (simp add: strict_sorted_iff)
  moreover have "sorted_wrt (<) (sorted_list_of_set (set bs))" by simp
  ultimately have "map fst ?d = sorted_list_of_set (set bs)"
    using set assms(3) by (simp add: strict_sorted_equal)
  moreover have "?d = map (\<lambda>b. (b, the (map_of h b))) (map fst ?d)"
    using set assms(2) by (auto simp: map_idI [symmetric] comp_def intro!: map_idI [symmetric])
  ultimately show ?thesis by simp
qed

section \<open>The handler and the generated client\<close>

lemma load_sends_nothing: "sends_nothing (load_increment K checks survives a)" "sends_nothing (load_decrement K checks survives a)"
  by (simp_all add: sends_nothing_def load_increment_def load_decrement_def split: outcome.split)

interpretation load_service: guarded_service "load_law K" "load_codecs K" load_fields "load_handle K checks survives"
  for K checks survives
proof unfold_locales
  have "(\<lambda>s. (s, [], r)) = with_read (\<lambda>_. r)" for r :: "bytes handler_result outcome" by (simp add: with_read_def fun_eq_iff)
  then show "(\<exists>b. sends_nothing b \<and> load_handle K checks survives c = with_write (load_codecs K) load_fields b)
      \<or> (\<exists>f. load_handle K checks survives c = with_read f)" for c
    by (auto simp: load_handle_def intro: load_sends_nothing split: sum.split load_call.split)
qed (simp_all add: load_law_def load_codecs_def load_fields_def)

lemma load_quiet: "quiet_service (load_handle K checks survives)"
  unfolding quiet_service_def
  by (auto simp: load_handle_def load_increment_def load_decrement_def with_read_def split: sum.split load_call.split outcome.split)

interpretation load_node: topic_service "load_handle K checks survives" "\<lambda>s. {}" for K checks survives
  by (rule quiet_topic_service [OF load_quiet])

text \<open>
  The trait of \<open>service.rs\<close>, from which the client is generated; the values of its parameters and
  results with their serializers; and the enum's values as the generated code builds them.
\<close>

definition load_trait :: "trait_item list" where
  "load_trait =
     [MethodItem \<lparr>sig_ident = ''increment'', sig_inputs = [Receiver, Typed (PatIdent ''amount'') ''u32'']\<rparr>,
      MethodItem \<lparr>sig_ident = ''decrement'', sig_inputs = [Receiver, Typed (PatIdent ''amount'') ''u32'']\<rparr>,
      MethodItem \<lparr>sig_ident = ''get'', sig_inputs = [Receiver]\<rparr>,
      MethodItem \<lparr>sig_ident = ''test_overhead'', sig_inputs = [Receiver]\<rparr>]"

datatype load_value = LvU32 u32 | LvUnit

fun lv_u32 :: "load_value \<Rightarrow> u32 option" where
  "lv_u32 (LvU32 n) = Some n"
| "lv_u32 LvUnit = None"

fun lv_unit :: "load_value \<Rightarrow> unit option" where
  "lv_unit LvUnit = Some ()"
| "lv_unit (LvU32 n) = None"

definition load_results :: "load_libs \<Rightarrow> string \<Rightarrow> load_value rkyv" where
  "load_results K method =
     (if method = ''test_overhead'' then field_codec (\<lambda>u. LvUnit) lv_unit (lt_unit K) else field_codec LvU32 lv_u32 (lt_u32 K))"

fun load_rpc :: "load_call \<Rightarrow> load_value rpc_call" where
  "load_rpc (LtIncrement a) = RpcCall ''Increment'' [(''amount'', LvU32 a)]"
| "load_rpc (LtDecrement a) = RpcCall ''Decrement'' [(''amount'', LvU32 a)]"
| "load_rpc LtGet = RpcCall ''Get'' []"
| "load_rpc LtTestOverhead = RpcCall ''TestOverhead'' []"

definition load_call_of :: "load_value rpc_call \<Rightarrow> load_call option" where
  "load_call_of c =
     (if c = load_rpc LtGet then Some LtGet
      else if c = load_rpc LtTestOverhead then Some LtTestOverhead
      else case call_fields c of
        [(f, LvU32 a)] \<Rightarrow>
          (if c = load_rpc (LtIncrement a) then Some (LtIncrement a)
           else if c = load_rpc (LtDecrement a) then Some (LtDecrement a) else None)
      | _ \<Rightarrow> None)"

definition load_rpc_rkyv :: "load_libs \<Rightarrow> load_value rpc_call rkyv" where
  "load_rpc_rkyv K = field_codec load_rpc load_call_of (lt_call K)"

text \<open>A call of the client: the method and its arguments.\<close>

fun load_method :: "load_call \<Rightarrow> string \<times> load_value list" where
  "load_method (LtIncrement a) = (''increment'', [LvU32 a])"
| "load_method (LtDecrement a) = (''decrement'', [LvU32 a])"
| "load_method LtGet = (''get'', [])"
| "load_method LtTestOverhead = (''test_overhead'', [])"

text \<open>The counter after a call, and what the caller is told.\<close>

fun load_value_after :: "bool \<Rightarrow> load_call \<Rightarrow> u32 \<Rightarrow> u32 outcome" where
  "load_value_after checks (LtIncrement a) n = word_add checks n a"
| "load_value_after checks (LtDecrement a) n = word_sub checks n a"
| "load_value_after checks _ n = Returns n"

definition load_reply :: "load_call \<Rightarrow> u32 \<Rightarrow> load_value" where
  "load_reply c n = (if c = LtTestOverhead then LvUnit else LvU32 n)"

lemma load_call_of_rpc [simp]: "load_call_of (load_rpc c) = Some c"
  by (cases c) (simp_all add: load_call_of_def)

lemma load_names:
  "snake_to_pascal_case ''increment'' = ''Increment''" "snake_to_pascal_case ''decrement'' = ''Decrement''"
  "snake_to_pascal_case ''get'' = ''Get''" "snake_to_pascal_case ''test_overhead'' = ''TestOverhead''"
  by code_simp+

lemma load_client_methods:
  "client_methods load_trait =
     [(''increment'', ''Increment'', [PatIdent ''amount'']), (''decrement'', ''Decrement'', [PatIdent ''amount'']),
      (''get'', ''Get'', []), (''test_overhead'', ''TestOverhead'', [])]"
  by (simp add: client_methods_def load_trait_def List.map_filter_simps load_names)

lemma load_request:
  assumes "cm \<in> set (client_methods load_trait)" "load_method c = (fst cm, args)"
  shows "build_call cm args = load_rpc c"
proof (cases cm)
  case (fields name variant pats)
  then show ?thesis using assms by (cases c) (auto simp: load_client_methods build_call_def)
qed

lemma ser_total: "load_law K \<Longrightarrow> \<exists>b. to_bytes (lt_u32 K) n = Some b \<and> ser survives (lt_u32 K) n = Returns (Inr b)
    \<and> from_bytes (lt_u32 K) b = Some n"
proof -
  assume K: "load_law K"
  then obtain b where "to_bytes (lt_u32 K) n = Some b" unfolding load_law_def by blast
  moreover from this K have "from_bytes (lt_u32 K) b = Some n" by (simp add: load_law_def rkyv_lawD)
  ultimately show ?thesis by (simp add: ser_def)
qed

lemma load_handle_result:
  assumes "load_law K" "from_bytes (lt_call K) b = Some c"
  shows "fst (load_handle K checks survives b s)
      = (case load_value_after checks c (load_counter s) of Panics \<Rightarrow> s | Returns n \<Rightarrow> \<lparr>load_counter = n\<rparr>)"
    and "snd (snd (load_handle K checks survives b s)) =
      and_then (load_value_after checks c (load_counter s))
        (\<lambda>n. if c = LtTestOverhead then Returns (Inr []) else ser survives (lt_u32 K) n)"
  using assms
  by (cases c; simp add: load_handle_def de_def load_service.write_sends(2) [OF assms(1) load_sends_nothing(1)]
      load_service.write_sends(2) [OF assms(1) load_sends_nothing(2)] load_increment_def load_decrement_def with_read_def
      split: outcome.split)+

lemma load_reply_decodes:
  assumes "load_law K" "load_method c = (name, args)"
    and "r = (if c = LtTestOverhead then Returns (Inr []) else ser survives (lt_u32 K) n)"
  shows "\<exists>b. r = Returns (Inr b) \<and> from_bytes (load_results K name) b = Some (load_reply c n)"
proof (cases "c = LtTestOverhead")
  case True
  have "from_bytes (lt_unit K) [] = Some ()" using assms(1) by (auto simp: load_law_def dest: rkyv_lawD)
  then show ?thesis using assms(2,3) True by (auto simp: load_results_def load_reply_def field_codec_def)
next
  case False
  then have "name \<noteq> ''test_overhead''" using assms(2) by (cases c) auto
  then show ?thesis
    using False assms(3) ser_total [OF assms(1), of n survives] by (auto simp: load_results_def load_reply_def field_codec_def)
qed

section \<open>An instance\<close>

text \<open>Integers as floating-point numbers, with a root rounded down.\<close>

definition int_root :: "int \<Rightarrow> int" where
  "int_root n = int (length (filter (\<lambda>k. 0 < k \<and> k * k \<le> nat n) [0..<Suc (nat n)]))"

definition int_float :: "int float_ops" where
  "int_float = \<lparr>f_of_u128 = uint, f_zero = 0, f_add = (+), f_sub = (-), f_mul = (*), f_div = (div),
     f_sqrt = int_root, f_round = id, f_as_u128 = word_of_int\<rparr>"

definition load_put :: "load_call \<Rightarrow> bytes" where
  "load_put c = (case c of LtIncrement a \<Rightarrow> 0 # put_u32 a | LtDecrement a \<Rightarrow> 1 # put_u32 a | LtGet \<Rightarrow> [2] | LtTestOverhead \<Rightarrow> [3])"

definition load_get :: "bytes \<Rightarrow> load_call option" where
  "load_get b =
     (case b of [] \<Rightarrow> None
      | k # r \<Rightarrow> (if k = 0 then map_option LtIncrement (get_u32 r) else if k = 1 then map_option LtDecrement (get_u32 r)
          else if k = 2 then Some LtGet else Some LtTestOverhead))"

definition demo_load :: load_libs where
  "demo_load = \<lparr>lt_call = \<lparr>to_bytes = (\<lambda>c. Some (load_put c)), from_bytes = load_get\<rparr>, lt_u32 = u32_rkyv,
     lt_unit = \<lparr>to_bytes = (\<lambda>u. Some []), from_bytes = (\<lambda>b. Some ())\<rparr>\<rparr>"

lemma demo_load_law: "load_law demo_load"
proof -
  have "load_get (load_put c) = Some c" for c by (cases c) (simp_all add: load_get_def load_put_def)
  then show ?thesis by (simp add: lib_laws demo_load_def u32_rkyv_def)
qed

section \<open>Properties\<close>

text \<open>
  C21: the statistics of the load test, completely. For any timings in range, in any order, the
  average is the sum divided by the number, minimum, median and maximum are those of the sorted
  timings, the deviation is the root of the mean squared distance from the average (exact also
  where a difference wrapped around), and the counts are those of the timings beyond the bounds. With
  overflow checks the program panics instead exactly when a timing is below the average or a bound
  leaves the range; without timings it always panics.
\<close>

theorem load_statistics_correct:
  assumes "load_bounds ts" and "ts \<noteq> []"
    and "xs = sort (micros ts)" and "avg = sum_list xs div length xs" and "dev = deviation F xs"
  shows "load_statistics F checks ts =
    (if checks \<and> (hd xs < avg \<or> avg < unat dev \<or> 340282366920938463463374607431768211456 \<le> avg + unat dev) then Panics
     else Returns \<lparr>st_avg = of_nat avg, st_min = of_nat (hd xs), st_max = of_nat (last xs),
       st_med = of_nat (xs ! (length xs div 2)), st_dev = dev,
       st_below = int (length (filter (\<lambda>x. x < unat (of_nat avg - dev)) xs)),
       st_above = int (length (filter (\<lambda>x. unat (of_nat avg + dev) < x) xs))\<rparr>)
    \<and> load_statistics F checks [] = Panics"
proof -
  have "avg < 281474976710656"
  proof -
    have "sum_list (micros (sort ts)) div length (sort ts) < 281474976710656"
      using assms(1,2) by (intro average_exact(2)) (simp, metis length_0_conv length_sort)
    then show ?thesis using assms(3,4) micros_sort [OF assms(1)] by simp
  qed
  then have u: "unat (of_nat avg :: u128) = avg" by (simp add: unat_of_nat)
  have "load_statistics F checks [] = Panics"
    by (simp add: load_statistics_def average_def word_divide_def)
  then show ?thesis
    using load_statistics_form [OF assms, of checks]
    by (simp add: word_sub_def word_add_def word_less_nat_alt u)
qed

theorem load_statistics_correct_witness:
  "\<exists>st. load_statistics int_float False [Duration 0 9000, Duration 0 3000, Duration 0 1999] = Returns st
    \<and> st_avg st = 4 \<and> st_min st = 1 \<and> st_med st = 3 \<and> st_max st = 9
    \<and> load_statistics int_float True [Duration 0 9000, Duration 0 3000, Duration 0 1999] = Panics"
proof -
  let ?ts = "[Duration 0 9000, Duration 0 3000, Duration 0 1999]"
  have m: "micros ?ts = [9, 3, 1]" by (simp add: micros_def unat_as_micros)
  have "load_bounds ?ts" by (simp add: load_bounds_def unat_as_micros)
  note r = load_statistics_correct [OF this, of "[1, 3, 9]" 4 "deviation int_float [1, 3, 9]" int_float]
  show ?thesis using r [of False] r [of True] by (simp add: m)
qed

text \<open>
  Without overflow checks the count of timings below average minus deviation is wrong when the
  deviation exceeds the average: the bound wraps around and every timing is counted, although
  none can be below a negative bound.
\<close>

theorem load_below_wraps:
  assumes "load_bounds ts" and "ts \<noteq> []" and "load_statistics F False ts = Returns st"
    and "unat (st_avg st) < unat (st_dev st)" and "unat (st_dev st) < 281474976710656"
  shows "st_below st = int (length ts)"
proof -
  let ?xs = "sort (micros ts)"
  let ?avg = "of_nat (sum_list ?xs div length ?xs) :: u128"
  have st: "st_avg st = ?avg" "st_dev st = deviation F ?xs"
    "st_below st = int (length (filter (\<lambda>x. x < unat (?avg - deviation F ?xs)) ?xs))"
    using load_statistics_form [OF assms(1,2) refl refl refl, of F False] assms(3) by auto
  have "unat (?avg - deviation F ?xs) = unat ?avg + 340282366920938463463374607431768211456 - unat (deviation F ?xs)"
    using assms(4,5) unfolding st by (simp add: unat_sub_if_size word_size)
  then have "281474976710656 \<le> unat (?avg - deviation F ?xs)" using assms(5) unfolding st by simp
  moreover have "x < 281474976710656" if "x \<in> set ?xs" for x
    using that assms(1) by (auto simp: micros_def load_bounds_def)
  ultimately have "filter (\<lambda>x. x < unat (?avg - deviation F ?xs)) ?xs = ?xs" by (auto simp: filter_id_conv intro: order.strict_trans2)
  then show ?thesis using st(3) by simp
qed

theorem load_below_wraps_witness:
  "\<exists>st. load_statistics int_float False [Duration 0 0, Duration 0 0, Duration 0 0, Duration 0 8000] = Returns st
    \<and> st_below st = 4 \<and> st_avg st = 2"
proof -
  let ?ts = "[Duration 0 0, Duration 0 0, Duration 0 0, Duration 0 8000]"
  have m: "micros ?ts = [0, 0, 0, 8]" by (simp add: micros_def unat_as_micros)
  have b: "load_bounds ?ts" by (simp add: load_bounds_def unat_as_micros)
  have d: "deviation int_float [0, 0, 0, 8] = 3"
    by (simp add: deviation_def int_float_def variance_def sq_diff_def int_root_def upt_rec)
  obtain st where st: "load_statistics int_float False ?ts = Returns st" "st_avg st = 2" "st_dev st = 3"
    using load_statistics_form [OF b, of "[0, 0, 0, 8]" 2 3 int_float False] m d by auto
  from load_below_wraps [OF b _ st(1)] st show ?thesis by simp
qed

text \<open>
  The histogram. Whatever order the hash map is walked in, the bars are the distinct values in
  increasing order, each with the number of timings that have it.
\<close>

theorem histogram_correct:
  assumes "iter_law iter" and "length ts < 340282366920938463463374607431768211456"
  shows "histogram_data checks iter ts =
    Returns (map (\<lambda>b. (b, of_nat (count_list (map as_micros ts) b))) (sorted_list_of_set (as_micros ` set ts)))"
proof -
  obtain h where h: "histogram_loop checks ts [] = Returns h" "distinct (map fst h)"
    and m: "\<And>b. map_of h b = (if b \<in> set (bins ts) then Some (of_nat (count_list (bins ts) b)) else None)"
    using histogram_loop_counts [of "[]" ts checks] assms(2) by auto
  have "fst ` set h = dom (map_of h)" by (rule dom_map_of_conv_image_fst [symmetric])
  also have "\<dots> = set (bins ts)" by (auto simp: m dom_def split: if_splits)
  finally have "sort_key fst (iter h) = map (\<lambda>b. (b, the (map_of h b))) (sorted_list_of_set (set (bins ts)))"
    by (intro histogram_sorted [OF assms(1) h(2)]) simp
  also have "\<dots> = map (\<lambda>b. (b, of_nat (count_list (bins ts) b))) (sorted_list_of_set (set (bins ts)))"
    by (simp add: m)
  finally show ?thesis using h(1) by (simp add: histogram_data_def bins_def)
qed

theorem histogram_correct_witness:
  "histogram_data True rev [Duration 0 9000, Duration 0 3000, Duration 0 9999] = Returns [(3, 1), (9, 2)]"
proof -
  have "as_micros (Duration 0 9000) = 9" "as_micros (Duration 0 3000) = 3" "as_micros (Duration 0 9999) = 9"
    by (simp_all add: as_micros_def)
  then show ?thesis
    using histogram_correct [OF iter_law_rev, of "[Duration 0 9000, Duration 0 3000, Duration 0 9999]" True]
    by (simp add: insert_commute)
qed

text \<open>
  C36: the percentile curve of the sorted timings: no index is out of range unless there are no
  timings, the points are the hundred percentiles in order, starting at the minimum, and they
  never fall.
\<close>

theorem percentiles_correct:
  assumes "load_bounds ts" and "xs = sort (micros ts)"
  shows "percentile_data (sort ts) =
     (if ts = [] then Panics
      else Returns (map (\<lambda>i. (of_nat i, of_nat (xs ! (length xs * i div 100)))) [0..<100]))
    \<and> (ts \<noteq> [] \<longrightarrow> sorted (map (\<lambda>i. xs ! (length xs * i div 100)) [0..<100]))"
proof (cases "ts = []")
  case True
  have "percentile_loop [] [0..<100] [] = Panics" by (simp add: upt_conv_Cons percentile_at_def array_get_def)
  then show ?thesis using True by (simp add: percentile_data_def)
next
  case False
  then have ne: "sort ts \<noteq> []" by (metis length_0_conv length_sort)
  have xs: "xs = micros (sort ts)" "length xs = length ts" "sorted xs" using micros_sort assms by simp_all
  have i: "length ts * i div 100 < length ts" if "i < 100" for i
    using that False by (intro less_mult_imp_div_less) simp
  have "percentile_data (sort ts) = Returns (map (\<lambda>i. (of_nat i, as_micros (sort ts ! (length ts * i div 100)))) [0..<100])"
    using percentile_loop_map [OF ne, of "[0..<100]" "[]"] by (simp add: percentile_data_def)
  also have "\<dots> = Returns (map (\<lambda>i. (of_nat i, of_nat (xs ! (length xs * i div 100)))) [0..<100])"
    using i by (simp add: xs(1) micros_def)
  finally have "percentile_data (sort ts) = Returns (map (\<lambda>i. (of_nat i, of_nat (xs ! (length xs * i div 100)))) [0..<100])" .
  moreover have "sorted (map (\<lambda>i. xs ! (length xs * i div 100)) [0..<100])"
  proof (rule sorted_wrt_map [THEN iffD2], rule sorted_wrt_mono_rel)
    show "sorted_wrt (<) [0..<100]" by simp
    show "xs ! (length xs * a div 100) \<le> xs ! (length xs * b div 100)" if "a \<in> set [0..<100]" "b \<in> set [0..<100]" "a < b" for a b
      using that xs i by (intro sorted_nth_mono) (auto intro: div_le_mono)
  qed
  ultimately show ?thesis using False by simp
qed

theorem percentiles_correct_witness:
  "\<exists>d. percentile_data (sort [Duration 0 9000, Duration 0 3000]) = Returns d \<and> d ! 0 = (0, 3) \<and> d ! 50 = (50, 9) \<and> length d = 100"
proof -
  let ?ts = "[Duration 0 9000, Duration 0 3000]"
  have "load_bounds ?ts" "[3, 9] = sort (micros ?ts)" by (simp_all add: load_bounds_def micros_def unat_as_micros)
  from percentiles_correct [OF this] show ?thesis by simp
qed

text \<open>
  C32: the hand-written handler serves the generated client. Whatever method of the trait the client
  calls, the request it builds is answered so that the method returns the counter after the call
  (nothing for \<open>test_overhead\<close>), the state is that counter, and the batches sent bring the client's copy
  of the state to it. A call that overflows, when overflow is checked, panics and changes nothing.
\<close>

theorem load_handler_serves_client:
  assumes "load_law K" and "app_rpc_tx a \<noteq> None" and "cm \<in> set (client_methods load_trait)"
    and "load_method c = (fst cm, args)" and "to_bytes (load_rpc_rkyv K) (build_call cm args) = Some b"
    and "load_handle K checks survives b s = (s', out, r)"
  shows "case load_value_after checks c (load_counter s) of
      Panics \<Rightarrow> s' = s \<and> r = Panics
    | Returns n \<Rightarrow> load_counter s' = n
        \<and> apply_batches (load_codecs K) (load_fields s) (sent_batches out) = load_fields s'
        \<and> (\<exists>res. r = Returns res
            \<and> client_method (load_rpc_rkyv K) (load_results K) True (Some res) cm args a = Returns (Inr (load_reply c n)))"
proof -
  have "to_bytes (lt_call K) c = Some b"
    using assms(5) load_request [OF assms(3,4)] by (simp add: load_rpc_rkyv_def field_codec_def)
  moreover have "rkyv_law (lt_call K)" using assms(1) by (simp add: load_law_def)
  ultimately have "from_bytes (lt_call K) b = Some c" by (rule rkyv_lawD [rotated])
  note R = load_handle_result [OF assms(1) this, of checks survives s, unfolded assms(6) fst_conv snd_conv]
  have batches: "apply_batches (load_codecs K) (load_fields s) (sent_batches out) = load_fields s'"
    using load_service.client_follows [OF assms(1), where checks = checks and survives = survives and calls = "[b]" and s = s and s' = s' and out = out and rs = "[r]"] assms(6) by simp
  obtain k where k: "app_rpc_tx a = Some k" using assms(2) by blast
  show ?thesis
  proof (cases "load_value_after checks c (load_counter s)")
    case (Returns n)
    then obtain x where "r = Returns (Inr x)" "from_bytes (load_results K (fst cm)) x = Some (load_reply c n)"
      using load_reply_decodes [OF assms(1,4), of _ survives n] R(2) by auto
    then show ?thesis using Returns R(1) batches k assms(5) by (simp add: client_method_def make_rpc_call_def)
  qed (use R in simp)
qed

theorem load_handler_serves_client_witness:
  "\<exists>s' out res. load_handle demo_load True True (0 # put_u32 5) \<lparr>load_counter = 2\<rparr> = (s', out, Returns res)
    \<and> client_method (load_rpc_rkyv demo_load) (load_results demo_load) True (Some res) (''increment'', ''Increment'', [PatIdent ''amount''])
        [LvU32 5] ((app_new ''h'' 6)\<lparr>app_rpc_tx := Some 0\<rparr>) = Returns (Inr (LvU32 7))"
proof -
  let ?x = "load_handle demo_load True True (0 # put_u32 5) \<lparr>load_counter = 2\<rparr>"
  let ?cm = "(''increment'', ''Increment'', [PatIdent ''amount''])"
  obtain s' out r where r: "?x = (s', out, r)" by (cases ?x)
  have "build_call ?cm [LvU32 5] = load_rpc (LtIncrement 5)" by (simp add: build_call_def)
  then have "to_bytes (load_rpc_rkyv demo_load) (build_call ?cm [LvU32 5]) = Some (0 # put_u32 5)"
    by (simp add: load_rpc_rkyv_def field_codec_def demo_load_def load_put_def del: load_rpc.simps)
  from load_handler_serves_client [OF demo_load_law _ _ _ this r, of "(app_new ''h'' 6)\<lparr>app_rpc_tx := Some 0\<rparr>" "LtIncrement 5"] r
  show ?thesis by (auto simp: load_client_methods word_add_def load_reply_def)
qed

end
