(* ===== verification/HL_Loadrun.thy ===== *)
theory HL_Loadrun
  imports HL_Loadtest
begin

text \<open>
  A whole run of the load test (\<open>main\<close> of \<open>testing-project/src/main.rs\<close>): the clients and their tasks,
  the timings they send, the receiving loop and the report. How many timings there can be decides
  whether the arithmetic of the report is exact.
\<close>

section \<open>The run\<close>

definition num_clients :: nat where
  "num_clients = 50"

definition tasks_per_client :: nat where
  "tasks_per_client = 4"

definition invocs_per_task :: nat where
  "invocs_per_task = 50000"

text \<open>The length of the progress bar, in \<open>u64\<close>.\<close>

definition bar_length :: "bool \<Rightarrow> u64 outcome" where
  "bar_length checks =
     and_then (word_mul checks (of_nat num_clients) (of_nat tasks_per_client)) (\<lambda>n. word_mul checks n (of_nat invocs_per_task))"

text \<open>
  A client: it unwraps its connection, runs its tasks and expects each to succeed. Of every task
  the outcomes of its calls so far are given; the result is what each task sent.
\<close>

definition load_client :: "bool \<Rightarrow> (bool \<times> duration) list list \<Rightarrow> duration list list \<times> unit outcome" where
  "load_client connected runs =
     (if \<not> connected then ([], Panics)
      else (let done = map load_task runs
            in (map fst done, if list_all (\<lambda>t. snd t = Returns ()) done then Returns () else Panics)))"

text \<open>Everything the clients' tasks sent into the channel, task by task.\<close>

definition load_sent :: "(bool \<times> (bool \<times> duration) list list) list \<Rightarrow> duration list" where
  "load_sent clients = concat (concat (map (\<lambda>(connected, runs). fst (load_client connected runs)) clients))"

text \<open>The program's numbers: a panicking client ends early, so these are upper bounds.\<close>

definition load_shape :: "(bool \<times> (bool \<times> duration) list list) list \<Rightarrow> bool" where
  "load_shape clients \<longleftrightarrow> length clients = num_clients
     \<and> (\<forall>c \<in> set clients. length (snd c) = tasks_per_client \<and> (\<forall>t \<in> set (snd c). length t \<le> invocs_per_task))"

text \<open>
  What the receiving loop gets: the channel may interleave the tasks in any way and the loop may
  stop early, but every timing received was sent, and is received once.
\<close>

definition received :: "duration option list \<Rightarrow> duration list" where
  "received rs = map the (takeWhile (\<lambda>r. r \<noteq> None) rs)"

definition channel_law :: "duration list \<Rightarrow> duration option list \<Rightarrow> bool" where
  "channel_law sent rs \<longleftrightarrow> mset (received rs) \<subseteq># mset sent"

definition load_main ::
  "'f float_ops \<Rightarrow> bool \<Rightarrow> ((u128 \<times> u128) list \<Rightarrow> (u128 \<times> u128) list) \<Rightarrow> duration option list \<Rightarrow>
   (scatter \<times> (u32 \<times> (u32 \<times> u32) list) \<times> load_stats \<times> (u128 \<times> u128) list) outcome" where
  "load_main F checks iter rs =
     and_then (bar_length checks) (\<lambda>len. load_report F checks iter (collect_timings rs []))"

section \<open>How many timings\<close>

lemma collect_received: "collect_timings rs acc = acc @ received rs"
  by (induction rs acc rule: collect_timings.induct) (simp_all add: received_def)

lemma bar_length_exact: "bar_length checks = Returns 10000000"
  by (simp add: bar_length_def word_mul_def num_clients_def tasks_per_client_def invocs_per_task_def)

lemma load_task_sent: "length (fst (load_task t)) \<le> length t" "set (fst (load_task t)) \<subseteq> snd ` set t"
  by (induction t rule: load_task.induct) (auto simp: split_beta Let_def)

lemma load_client_sent:
  assumes "length runs = n" "\<forall>t \<in> set runs. length t \<le> m"
  shows "length (concat (fst (load_client connected runs))) \<le> n * m"
proof -
  have "length (concat (map (\<lambda>t. fst (load_task t)) runs)) \<le> length runs * m"
    using assms(2)
  proof (induction runs)
    case (Cons t runs)
    then show ?case using load_task_sent(1) [of t] by (auto intro: add_mono order_trans)
  qed simp
  then show ?thesis using assms(1) by (simp add: load_client_def Let_def comp_def)
qed

lemma load_sent_length:
  assumes "load_shape clients"
  shows "length (load_sent clients) \<le> 10000000"
proof -
  have "length (load_sent cs) \<le> length cs * (tasks_per_client * invocs_per_task)"
    if "\<forall>c \<in> set cs. length (snd c) = tasks_per_client \<and> (\<forall>t \<in> set (snd c). length t \<le> invocs_per_task)" for cs
    using that
  proof (induction cs)
    case (Cons c cs)
    have "length (concat (fst (load_client (fst c) (snd c)))) \<le> tasks_per_client * invocs_per_task"
      using Cons.prems by (intro load_client_sent) auto
    then show ?case using Cons by (simp add: load_sent_def split_beta)
  qed (simp add: load_sent_def)
  then have "length (load_sent clients) \<le> num_clients * (tasks_per_client * invocs_per_task)"
    using assms unfolding load_shape_def by metis
  then show ?thesis by (simp add: num_clients_def tasks_per_client_def invocs_per_task_def)
qed

lemma received_length:
  assumes "load_shape clients" "channel_law (load_sent clients) rs"
  shows "length (received rs) \<le> 10000000" "set (received rs) \<subseteq> set (load_sent clients)"
proof -
  have "size (mset (received rs)) \<le> size (mset (load_sent clients))"
    using assms(2) unfolding channel_law_def by (rule size_mset_mono)
  then show "length (received rs) \<le> 10000000" using load_sent_length [OF assms(1)] by simp
  show "set (received rs) \<subseteq> set (load_sent clients)"
    using assms(2) unfolding channel_law_def by (metis set_mset_mono set_mset_mset)
qed

section \<open>The report of a run\<close>

lemma foldl_max: "foldl max a xs = Max (insert a (set xs))" for a :: "'a :: linorder"
proof (induction xs arbitrary: a)
  case (Cons x xs)
  have "Max (insert (max a x) (set xs)) = max a (Max (insert x (set xs)))"
    by (cases "set xs = {}") (simp_all add: max.assoc)
  then show ?case using Cons by simp
qed simp

lemma histogram_height_exact:
  assumes "d = map (\<lambda>b. (b, of_nat (count_list xs b))) (sorted_list_of_set (set xs))" "length xs < 4294967296" "xs \<noteq> []"
  shows "unat (histogram_height d) = Max (count_list xs ` set xs)"
proof -
  let ?f = "\<lambda>b. of_nat (count_list xs b) :: u128"
  have c: "count_list xs b < 4294967296" for b using count_le_length [of xs b] assms(2) by linarith
  have u: "unat (?f b) = count_list xs b" for b using c [of b] by (simp add: unat_of_nat)
  have ne: "set xs \<noteq> {}" using assms(3) by simp
  have "foldl max 0 (map snd d) = Max (insert 0 (?f ` set xs))"
    by (simp add: assms(1) foldl_max comp_def)
  also have "\<dots> = Max (?f ` set xs)" using ne by (simp add: max_def word_le_nat_alt)
  finally have h: "foldl max 0 (map snd d) = Max (?f ` set xs)" .
  have "unat (Max (?f ` set xs)) = Max (unat ` ?f ` set xs)"
    using ne by (intro mono_Max_commute) (simp_all add: mono_def word_le_nat_alt)
  also have "\<dots> = Max (count_list xs ` set xs)" by (simp add: image_image u)
  finally have m: "unat (Max (?f ` set xs)) = Max (count_list xs ` set xs)" .
  have "Max (count_list xs ` set xs) < 4294967296" using c ne by simp
  then show ?thesis using m by (simp add: histogram_height_def h unsigned_ucast_eq take_bit_nat_eq_self)
qed

lemma load_report_returns:
  assumes "iter_law iter" "load_bounds ts" "ts \<noteq> []"
  obtains sc bars st p hgt where "load_report F False iter ts = Returns (sc, (hgt, bars), st, p)"
    "load_statistics F False ts = Returns st" "unat hgt = Max (count_list (map as_micros ts) ` set (map as_micros ts))"
proof -
  have n: "length ts < 2147483648" using assms(2) by (simp add: load_bounds_def)
  obtain top where "iter_max ts = Some top" using assms(3) by (cases ts) (simp_all add: iter_max_def)
  then obtain sc where sc: "scatter_data F False ts = Returns sc"
    by (simp add: scatter_data_def standard_deviation_def average_exact(1) [OF assms(2,3)] Let_def)
  obtain st where st: "load_statistics F False ts = Returns st"
    using load_statistics_form [OF assms(2,3) refl refl refl, of F False] by simp
  have "sort ts \<noteq> []" using assms(3) by (metis length_0_conv length_sort)
  from percentile_loop_map [OF this, of "[0..<100]" "[]"] obtain p where p: "percentile_data (sort ts) = Returns p"
    by (simp add: percentile_data_def)
  let ?d = "map (\<lambda>b. (b, of_nat (count_list (map as_micros ts) b))) (sorted_list_of_set (set (map as_micros ts)))"
  have h: "histogram_data False iter ts = Returns ?d" using histogram_correct [OF assms(1)] n by simp
  have "unat (histogram_height ?d) = Max (count_list (map as_micros ts) ` set (map as_micros ts))"
    by (rule histogram_height_exact [OF refl]) (use n assms(3) in simp_all)
  then show thesis using that [of sc "histogram_height ?d" "histogram_bars ?d" st p] sc h st p by (simp add: load_report_def)
qed

section \<open>Properties\<close>

text \<open>
  C22: the load test's report is exact for its own numbers. Whatever calls fail, however the channel
  interleaves the tasks and whenever the receiving loop stops, there are at most ten million timings;
  a release build then reports exactly when at least one timing was received, its average is the
  exact one, and the height of its histogram is the largest count, not truncated.
\<close>

theorem load_run_report:
  assumes "load_shape clients" and "channel_law (load_sent clients) rs" and "iter_law iter"
    and "\<forall>t \<in> set (load_sent clients). dur_nanos t < 1000000000 \<and> unat (as_micros t) < 281474976710656"
    and "timings = collect_timings rs []"
  shows "length timings \<le> 10000000 \<and> (load_main F False iter rs = Panics \<longleftrightarrow> timings = [])
    \<and> (\<forall>sc hgt bars st p. load_main F False iter rs = Returns (sc, (hgt, bars), st, p) \<longrightarrow>
        unat (st_avg st) = sum_list (micros timings) div length timings
      \<and> unat hgt = Max (count_list (map as_micros timings) ` set (map as_micros timings)))"
proof -
  have t: "timings = received rs" using assms(5) by (simp add: collect_received)
  have n: "length timings \<le> 10000000" and sub: "set timings \<subseteq> set (load_sent clients)"
    using received_length [OF assms(1,2)] t by simp_all
  then have b: "load_bounds timings" using assms(4) unfolding load_bounds_def by auto
  have main: "load_main F False iter rs = load_report F False iter timings"
    by (simp add: load_main_def bar_length_exact assms(5))
  show ?thesis
  proof (cases "timings = []")
    case True
    then show ?thesis using main by (simp add: load_report_def scatter_data_def iter_max_def Let_def)
  next
    case False
    obtain sc bars st p hgt where r: "load_report F False iter timings = Returns (sc, (hgt, bars), st, p)"
      "load_statistics F False timings = Returns st"
      "unat hgt = Max (count_list (map as_micros timings) ` set (map as_micros timings))"
      by (rule load_report_returns [OF assms(3) b False])
    let ?xs = "sort (micros timings)"
    have "sum_list ?xs = sum_list (micros timings)" by (metis mset_sort sum_mset_sum_list)
    then have "st_avg st = of_nat (sum_list (micros timings) div length timings)"
      using load_statistics_form [OF b False refl refl refl, of F False] r(2) by auto
    then have "unat (st_avg st) = sum_list (micros timings) div length timings"
      using average_exact(2) [OF b False] by (simp add: unat_of_nat)
    then show ?thesis using n main r False by auto
  qed
qed

theorem load_run_report_witness:
  "\<exists>sc hgt bars st p. load_main int_float False rev [Some (Duration 0 9000), Some (Duration 0 3000), None] = Returns (sc, (hgt, bars), st, p)
    \<and> unat (st_avg st) = 6 \<and> unat hgt = 1"
proof -
  let ?clients = "(True, [(True, Duration 0 3000)] # [(True, Duration 0 9000)] # replicate 2 []) # replicate 49 (True, replicate 4 [])"
  let ?rs = "[Some (Duration 0 9000), Some (Duration 0 3000), None]"
  have shape: "load_shape ?clients" by (simp add: load_shape_def num_clients_def tasks_per_client_def invocs_per_task_def)
  have sent: "load_sent ?clients = [Duration 0 3000, Duration 0 9000]"
    by (simp add: load_sent_def load_client_def Let_def numeral_eq_Suc)
  have ch: "channel_law (load_sent ?clients) ?rs" by (simp add: sent channel_law_def received_def add_mset_commute)
  have t: "\<forall>t \<in> set (load_sent ?clients). dur_nanos t < 1000000000 \<and> unat (as_micros t) < 281474976710656"
    by (simp add: sent unat_as_micros)
  have m: "collect_timings ?rs [] = [Duration 0 9000, Duration 0 3000]" by simp
  note r = load_run_report [OF shape ch iter_law_rev t refl, of int_float, unfolded m]
  then obtain sc hgt bars st p where "load_main int_float False rev ?rs = Returns (sc, (hgt, bars), st, p)"
    by (cases "load_main int_float False rev ?rs") auto
  moreover have "as_micros (Duration 0 9000) = 9" "as_micros (Duration 0 3000) = 3" by (simp_all add: as_micros_def)
  ultimately show ?thesis using r by (auto simp: micros_def simp flip: numeral_2_eq_2)
qed

end
