(* ===== verification/HL_Setup.thy ===== *)
theory HL_Setup
  imports HL_Tls
begin

text \<open>
  How the programs of \<open>examples/\<close>, \<open>tests/\<close> and \<open>testing-project/\<close> start: a server with a self-signed
  certificate, run in a task, and an application client whose generated \<open>connect\<close> starts the runtime
  client in a task of its own. The composition of configuration, TLS policy, handshake and loops.
\<close>

section \<open>Starting a server\<close>

text \<open>\<open>ServerConfig::new_self_signed(host)\<close> and \<open>Server::new\<close>; the channels it creates have numbers.\<close>

definition start_server ::
  "('cert, 'tls) rcgen \<Rightarrow> ('hv, 'hm) http \<Rightarrow> (string \<Rightarrow> nat option) \<Rightarrow> string \<Rightarrow> string \<Rightarrow> nat \<Rightarrow> nat \<Rightarrow>
   ('tls, 'hv) server outcome" where
  "start_server R P major_of hl_version host event_chan topic_chan =
     and_then (server_config_self_signed R major_of hl_version host) (server_new P event_chan topic_chan)"

text \<open>The counter also takes an emitter and unwraps the topic notifier.\<close>

definition start_counter_server ::
  "('cert, 'tls) rcgen \<Rightarrow> ('hv, 'hm) http \<Rightarrow> (string \<Rightarrow> nat option) \<Rightarrow> string \<Rightarrow> string \<Rightarrow> nat \<Rightarrow> nat \<Rightarrow>
   (nat \<times> nat \<times> ('tls, 'hv) server) outcome" where
  "start_counter_server R P major_of hl_version host event_chan topic_chan =
     and_then (start_server R P major_of hl_version host event_chan topic_chan) (\<lambda>server.
       let event_emitter = get_event_emitter server; (rx, server') = get_topic_notifier server
       in and_then (unwrap rx) (\<lambda>topic_notifier. Returns (event_emitter, topic_notifier, server')))"

text \<open>\<open>server.run().await.unwrap()\<close>: an address that cannot be bound panics the task.\<close>

definition run_server ::
  "bool \<Rightarrow> nat \<Rightarrow> 's option list \<Rightarrow> ('tls, 'hv) server \<Rightarrow> (event_switch \<times> ('s \<times> nat) list) outcome" where
  "run_server bind_ok notif_chan accepted server =
     and_then (server_serve bind_ok notif_chan accepted server) (\<lambda>r.
       case r of Inl e \<Rightarrow> Panics | Inr running \<Rightarrow> Returns running)"

section \<open>Starting a client\<close>

text \<open>
  The task the generated \<open>connect\<close> spawns: build the runtime client with the certificate policy
  chosen, connect it. \<open>transport v req\<close> is what TLS with that policy and the WebSocket client give;
  \<open>app_listens\<close>: the application still awaits \<open>connect\<close>.
\<close>

definition connect_task ::
  "('hv, 'hm) http \<Rightarrow> (string \<Rightarrow> nat option) \<Rightarrow> string \<Rightarrow> (bytes \<Rightarrow> bool) \<Rightarrow> bytes list option \<Rightarrow> (string \<Rightarrow> bool) \<Rightarrow> string \<Rightarrow>
   (verifier \<Rightarrow> 'hm \<Rightarrow> 'e + 'hm) \<Rightarrow> bool \<Rightarrow> ('st \<Rightarrow> state_update list \<Rightarrow> 'st \<times> unit handler_result) \<Rightarrow> ('enc, 'dec) hl_lib \<Rightarrow> 'st \<Rightarrow>
   (bool \<times> 'tx client_input) list \<Rightarrow> app_client \<Rightarrow>
   ('e connect_error + flow \<times> ('tx, 'st) client \<times> 'tx client_effect list) outcome" where
  "connect_task P major_of hl_version store_takes native uri_ok key transport app_listens apply_upd L dflt ins a =
     and_then (app_verifier store_takes native a) (\<lambda>v.
       and_then (if app_self_signed a then runtime_new_self_signed P major_of hl_version (app_host a) (app_compression a)
                 else runtime_new P major_of hl_version store_takes native (app_host a) (app_compression a)) (\<lambda>rt.
         client_connect P uri_ok key (transport v) app_listens apply_upd L dflt ins rt))"

text \<open>What the application hears of the task: its control channels, its error, or that it panicked.\<close>

definition report_of :: "nat \<Rightarrow> ('e + 'r) outcome \<Rightarrow> 'e report" where
  "report_of n t = (case t of Panics \<Rightarrow> TaskGone | Returns (Inl e) \<Rightarrow> ConnectError e | Returns (Inr r) \<Rightarrow> ControlChannels n)"

text \<open>\<open>client.connect().await.unwrap()\<close>.\<close>

definition connect_unwrap :: "'e report \<Rightarrow> app_client \<Rightarrow> app_client outcome" where
  "connect_unwrap r a =
     and_then (app_connect r a) (\<lambda>(a', res). case res of Inl e \<Rightarrow> Panics | Inr u \<Rightarrow> Returns a')"

text \<open>
  The start of the to-do and pet programs (the server runs in a task of its own), and that of the
  counter's client, which also unwraps its event receiver.
\<close>

definition local_host :: string where
  "local_host = ''localhost:8080''"

definition start_program ::
  "('cert, 'tls) rcgen \<Rightarrow> ('hv, 'hm) http \<Rightarrow> (string \<Rightarrow> nat option) \<Rightarrow> string \<Rightarrow> nat \<Rightarrow> nat \<Rightarrow> nat \<Rightarrow> 'e report \<Rightarrow>
   (('tls, 'hv) server \<times> app_client) outcome" where
  "start_program R P major_of hl_version event_chan topic_chan dflt_level r =
     and_then (start_server R P major_of hl_version local_host event_chan topic_chan) (\<lambda>server.
       and_then (connect_unwrap r (app_new_self_signed local_host dflt_level)) (\<lambda>client. Returns (server, client)))"

definition start_counter_client :: "nat \<Rightarrow> 'e report \<Rightarrow> (app_client \<times> nat) outcome" where
  "start_counter_client dflt_level r =
     and_then (connect_unwrap r (app_new_self_signed local_host dflt_level)) (\<lambda>client.
       case app_subscribe client of Inl e \<Rightarrow> Panics | Inr subscription \<Rightarrow> Returns (client, subscription))"

section \<open>What is documented of the other parties\<close>

text \<open>rcgen makes a certificate for the host, and rustls takes it.\<close>

definition self_signed_ok :: "('cert, 'tls) rcgen \<Rightarrow> string \<Rightarrow> bytes \<Rightarrow> bool" where
  "self_signed_ok R host der \<longleftrightarrow>
     (\<exists>cert tls_cfg. generate_self_signed R [host] = Some cert \<and> serialize_der R cert = Some der
       \<and> with_single_cert R [der] (private_key_der R cert) = Some tls_cfg)"

text \<open>
  A client that connects while nobody listens on the address gets an error. Otherwise TLS succeeds when
  the client accepts the server's certificate; the WebSocket client then gives the headers of a
  response with status 101 and an error for any other status.
\<close>

definition upgrade_law ::
  "('hv, 'hm) http \<Rightarrow> nat \<Rightarrow> 'hv \<Rightarrow> 'hm \<Rightarrow> (bytes list \<Rightarrow> bytes \<Rightarrow> bool) \<Rightarrow> bytes \<Rightarrow> bool \<Rightarrow> (verifier \<Rightarrow> 'hm \<Rightarrow> 'e + 'hm) \<Rightarrow> bool" where
  "upgrade_law P dflt version base chain_ok cert listening transport \<longleftrightarrow>
     (\<not> listening \<longrightarrow> (\<forall>v req. \<exists>e. transport v req = Inl e))
     \<and> (listening \<longrightarrow> (\<forall>v req status headers level. accepts_cert chain_ok v cert \<longrightarrow>
          server_callback P dflt version req (101, base) = Returns ((status, headers), level) \<longrightarrow>
          (if status = 101 then transport v req = Inr headers else \<exists>e. transport v req = Inl e)))"

section \<open>The pieces on the way\<close>

lemma start_server_Returns:
  assumes "http_law P" "self_signed_ok R host der" "major_of hl_version = Some major"
    and "hl_version_string P major = Returns version"
  obtains server where "start_server R P major_of hl_version host ev tn = Returns server"
    "sv_version server = version" "sv_event_rx server = Some ev" "sv_event_tx server = ev" "sv_topic_rx server = Some tn"
  using assms
  by (auto simp: start_server_def self_signed_ok_def server_config_self_signed_def server_config_new_def server_new_def)

text \<open>The counter's server starts, too: its emitter feeds the switch and the notifier is there.\<close>

lemma start_counter_server_runs:
  assumes "start_server R P major_of hl_version host ev tn = Returns server"
    and "sv_event_rx server = Some ev" "sv_event_tx server = ev" "sv_topic_rx server = Some tn"
  shows "\<exists>server'. start_counter_server R P major_of hl_version host ev tn = Returns (ev, tn, server')
    \<and> run_server True ch (map Some streams) server' = Returns (switch_new, map (\<lambda>x. (x, ch)) streams)"
  using assms by (simp add: start_counter_server_def get_event_emitter_def get_topic_notifier_def run_server_def
      server_serve_def List.map_filter_def comp_def)

lemma client_request_Returns:
  assumes "http_law P" "visible_ascii (hello_host c)" "visible_ascii (hello_key c)"
    and "uri_ok (''wss://'' @ hello_host c @ ''/'')"
  shows "\<exists>req. client_request P uri_ok c = Returns req"
proof -
  have "visible_ascii ''13''" "visible_ascii ''websocket''" "visible_ascii ''Upgrade''" by (simp_all add: visible_ascii_def)
  then obtain a b d e f where "hv_parse P ''13'' = Some a" "hv_parse P ''websocket'' = Some b" "hv_parse P ''Upgrade'' = Some d"
    "hv_parse P (hello_host c) = Some e" "hv_parse P (hello_key c) = Some f"
    using http_lawD(1) [OF assms(1)] assms(2,3) by metis
  then show ?thesis using assms(4) by (simp add: client_request_def with_header_def)
qed

text \<open>The transport's answer to the request of a client of version \<open>vc\<close>.\<close>

lemma transport_answer:
  assumes "http_law P" "hv_to_str P vs \<noteq> None"
    and "hdr_get P base ''Sec-WebSocket-Protocol'' = None" "hdr_get P base ''X-HL-Compress'' = None"
    and "upgrade_law P dflt vs base chain_ok cert listening transport" "accepts_cert chain_ok v cert"
    and "hdr_get P req ''Sec-WebSocket-Protocol'' = Some vc"
  shows "if listening \<and> vc = vs then (\<exists>headers. transport v req = Inr headers
        \<and> hdr_get P headers ''Sec-WebSocket-Protocol'' = Some vs) else (\<exists>e. transport v req = Inl e)"
proof (cases listening)
  case True
  obtain headers where cb: "server_callback P dflt vs req (101, base) =
       Returns ((if vc = vs then 101 else 400, headers), negotiate_level P dflt req)"
    and h: "hdr_get P headers ''Sec-WebSocket-Protocol'' = (if vc = vs then Some vs else None)"
    using server_callback_headers [OF assms(1-4), of dflt req 101] assms(7) by auto
  have "if (if vc = vs then 101 else 400) = (101 :: nat) then transport v req = Inr headers else \<exists>e. transport v req = Inl e"
    using True assms(5,6) cb unfolding upgrade_law_def by blast
  then show ?thesis using True h by (auto split: if_splits)
qed (use assms(5) in \<open>simp add: upgrade_law_def\<close>)

lemma connect_unwrap_report:
  "connect_unwrap (report_of n t) a =
     (case t of Returns (Inr r) \<Rightarrow>
        Returns (a\<lparr>app_shutdown := Some n, app_rpc_tx := Some n, app_events_tx := Some n, app_state := Some n\<rparr>)
      | _ \<Rightarrow> Panics)"
  by (simp add: connect_unwrap_def report_of_def app_connect_def split: outcome.split sum.split)

text \<open>
  A program goes on exactly when its server starts and its client is connected; the counter's event
  receiver is then that of the same connection as its calls and its state.
\<close>

lemma start_program_Returns_iff:
  "start_program R P major_of hl_version ev tn level r = Returns (server, client) \<longleftrightarrow>
     start_server R P major_of hl_version local_host ev tn = Returns server
     \<and> connect_unwrap r (app_new_self_signed local_host level) = Returns client"
  by (auto simp: start_program_def and_then_Returns_iff)

lemma start_counter_client_handles:
  "start_counter_client level r = Returns (client, subscription) \<longleftrightarrow>
     r = ControlChannels subscription \<and> connect_unwrap r (app_new_self_signed local_host level) = Returns client
     \<and> app_rpc_tx client = Some subscription \<and> app_state client = Some subscription"
  by (cases r) (auto simp: start_counter_client_def connect_unwrap_def app_connect_def app_subscribe_def)

text \<open>The loop of a client that reached its server ran; that of another did not start.\<close>

lemma connect_task_self_signed:
  assumes "http_law P" "major_of cv = Some mc" "hl_version_string P mc = Returns vc" "hv_to_str P vs \<noteq> None"
    and "client_request P uri_ok \<lparr>hello_host = host, hello_key = key, hello_version = vc, hello_level = level\<rparr> = Returns req"
    and "hdr_get P base ''Sec-WebSocket-Protocol'' = None" "hdr_get P base ''X-HL-Compress'' = None"
    and "upgrade_law P dflt vs base chain_ok cert listening transport"
  obtains (refused) e where "\<not> (listening \<and> vc = vs)"
      "connect_task P major_of cv add native uri_ok key transport True f L st ins (app_new_self_signed host level) = Returns (Inl (Transport e))"
  | (served) r where "listening" "vc = vs" "client_loop f L ins (client_new st level) = Returns r"
      "connect_task P major_of cv add native uri_ok key transport True f L st ins (app_new_self_signed host level) = Returns (Inr r)"
proof -
  let ?a = "app_new_self_signed host level"
  have task: "connect_task P major_of cv add native uri_ok key transport True f L st ins ?a =
      client_connect P uri_ok key (transport tls_self_signed) True f L st ins \<lparr>rt_host = host, rt_compression = level, rt_version = vc\<rparr>"
    using assms(2,3) by (simp add: connect_task_def app_verifier_def app_new_self_signed_def runtime_new_self_signed_def new_with_config_def)
  have "accepts_cert chain_ok tls_self_signed cert" by (simp add: accepts_cert_def tls_self_signed_def verify_server_cert_def)
  note ans = transport_answer [OF assms(1,4,6,7,8) this client_request_headers(1) [OF assms(1,5)], simplified]
  obtain r where r: "client_loop f L ins (client_new st level) = Returns r"
    using client_loop_total [of "client_new st level"] by fastforce
  show thesis
  proof (cases "listening \<and> vc = vs")
    case True
    with ans obtain headers where h: "transport tls_self_signed req = Inr headers"
      "hdr_get P headers ''Sec-WebSocket-Protocol'' = Some vs" by auto
    then show thesis
      using served True r task assms(4,5) by (auto simp: client_connect_def client_check_def Let_def)
  next
    case False
    with ans obtain e where "transport tls_self_signed req = Inl e" by auto
    then show thesis using refused [OF False, of e] task assms(5) by (simp add: client_connect_def client_check_def)
  qed
qed

section \<open>Properties\<close>

text \<open>
  C14: the programs start. When the certificate can be made, the server starts; it runs one handler per
  accepted stream if its address can be bound, and its task panics otherwise. A client started with
  \<open>new_self_signed\<close> connects exactly when the server listens at that moment (it has bound its address)
  and has the same major version, whatever the certificate: then all its handles are those of the new
  connection and its loop runs from the default state, while the server's connection starts clean
  with the client's level (or the default for a level above 9). Otherwise the client's \<open>unwrap\<close> panics.
\<close>

theorem programs_start:
  assumes "http_law P" and "self_signed_ok R host cert" and "major_of sv = Some ms" and "major_of cv = Some mc"
    and "visible_ascii host" and "visible_ascii key" and "uri_ok (''wss://'' @ host @ ''/'')"
    and "hl_version_string P ms = Returns vs"
    and "hdr_get P base ''Sec-WebSocket-Protocol'' = None" and "hdr_get P base ''X-HL-Compress'' = None"
    and "listening \<longrightarrow> bind_ok"
    and "upgrade_law P dflt vs base chain_ok cert listening transport" and "\<forall>headers. accepts (101, headers)"
    and "task = connect_task P major_of cv add native uri_ok key transport True f L st ins (app_new_self_signed host level)"
    and "connects \<longleftrightarrow> listening \<and> ms = mc"
  shows "\<exists>server vc req. start_server R P major_of sv host ev tn = Returns server
    \<and> run_server bind_ok ch (map Some streams) server =
        (if bind_ok then Returns (switch_new, map (\<lambda>x. (x, ch)) streams) else Panics)
    \<and> hl_version_string P mc = Returns vc
    \<and> client_request P uri_ok \<lparr>hello_host = host, hello_key = key, hello_version = vc, hello_level = level\<rparr> = Returns req
    \<and> connect_unwrap (report_of n task) (app_new_self_signed host level) =
        (if connects then Returns \<lparr>app_host = host, app_self_signed = True, app_shutdown = Some n, app_rpc_tx = Some n,
           app_events_tx = Some n, app_state = Some n, app_compression = level\<rparr> else Panics)
    \<and> (connects \<longrightarrow> bind_ok
       \<and> conn_setup P dflt (sv_version server) True accepts (Some req) base tx =
           Returns (Some (conn_new (if level \<le> 9 then level else dflt) tx))
       \<and> (\<exists>r. task = Returns (Inr r) \<and> client_loop f L ins (client_new st level) = Returns r))"
proof -
  obtain server where server: "start_server R P major_of sv host ev tn = Returns server" "sv_version server = vs"
    "sv_event_rx server = Some ev"
    by (rule start_server_Returns [of P R host cert major_of sv ms vs ev tn]) (use assms in auto)
  obtain vc where vc: "hl_version_string P mc = Returns vc" using hl_version_string_eq [OF assms(1)] by blast
  have same: "vc = vs \<longleftrightarrow> ms = mc" using version_strings_eq_iff [OF assms(1) vc assms(8)] by auto
  have vs: "hv_to_str P vs \<noteq> None" using hl_version_string_eq [OF assms(1), of ms] assms(8) by auto
  obtain req where req: "client_request P uri_ok \<lparr>hello_host = host, hello_key = key, hello_version = vc, hello_level = level\<rparr> = Returns req"
    using client_request_Returns [OF assms(1)] assms(5-7) by fastforce
  note hdr = client_request_headers [OF assms(1) req, simplified]
  obtain headers where cb: "server_callback P dflt vs req (101, base) =
      Returns ((if vc = vs then 101 else 400, headers), if level \<le> 9 then level else dflt)"
    using server_callback_headers [OF assms(1) vs assms(9,10), of dflt req 101] hdr(1)
      negotiate_level_request [OF assms(1) hdr(2), of dflt] by auto
  have "run_server bind_ok ch (map Some streams) server =
      (if bind_ok then Returns (switch_new, map (\<lambda>x. (x, ch)) streams) else Panics)"
    using server(3) by (simp add: run_server_def server_serve_def List.map_filter_def comp_def)
  moreover have "connects \<longrightarrow> conn_setup P dflt (sv_version server) True accepts (Some req) base tx =
      Returns (Some (conn_new (if level \<le> 9 then level else dflt) tx))"
    using cb server(2) same assms(13,15) by (simp add: conn_setup_def)
  moreover have "connect_unwrap (report_of n task) (app_new_self_signed host level) =
        (if connects then Returns \<lparr>app_host = host, app_self_signed = True, app_shutdown = Some n, app_rpc_tx = Some n,
           app_events_tx = Some n, app_state = Some n, app_compression = level\<rparr> else Panics)
    \<and> (connects \<longrightarrow> (\<exists>r. task = Returns (Inr r) \<and> client_loop f L ins (client_new st level) = Returns r))"
    by (rule connect_task_self_signed [where major_of = major_of and cv = cv and add = add and native = native and f = f and L = L and st = st
        and ins = ins, OF assms(1,4) vc vs req assms(9,10,12)])
      (use same assms(14,15) in \<open>auto simp: connect_unwrap_report app_new_self_signed_def\<close>)
  ultimately show ?thesis using server(1) vc req assms(11,15) by blast
qed

section \<open>An instance\<close>

text \<open>A certificate is the host's name, and a client reaches the server when it listens.\<close>

definition demo_rcgen :: "(string, unit) rcgen" where
  "demo_rcgen = \<lparr>generate_self_signed = (\<lambda>hosts. Some (concat hosts)), serialize_der = (\<lambda>c. Some []),
     private_key_der = (\<lambda>c. []), with_single_cert = (\<lambda>certs key. Some ())\<rparr>"

definition demo_transport :: "bool \<Rightarrow> string \<Rightarrow> verifier \<Rightarrow> (string \<times> string) list \<Rightarrow> unit + (string \<times> string) list" where
  "demo_transport listening version v req =
     (if \<not> listening then Inl () else case server_callback demo_http 6 version req (101, []) of
        Returns ((status, headers), level) \<Rightarrow> (if status = 101 then Inr headers else Inl ()) | Panics \<Rightarrow> Inl ())"

lemma demo_upgrade_law: "upgrade_law demo_http 6 version [] chain_ok cert listening (demo_transport listening version)"
  by (auto simp: upgrade_law_def demo_transport_def split: outcome.splits)

theorem programs_start_witness:
  "\<exists>server. start_server demo_rcgen demo_http (\<lambda>v. Some 2) ''2.0.0'' ''h'' 0 1 = Returns server
    \<and> run_server True 5 (map Some [''x'']) server = Returns (switch_new, [(''x'', 5)])
    \<and> connect_unwrap (report_of 7 (connect_task demo_http (\<lambda>v. Some 2) ''2.0.0'' (\<lambda>c. True) None (\<lambda>u. True) ''k''
        (demo_transport True ''hl/2'') True keep_state demo_lib () ([] :: (bool \<times> nat client_input) list) (app_new_self_signed ''h'' 3)))
        (app_new_self_signed ''h'' 3)
      = Returns \<lparr>app_host = ''h'', app_self_signed = True, app_shutdown = Some 7, app_rpc_tx = Some 7,
          app_events_tx = Some 7, app_state = Some 7, app_compression = 3\<rparr>"
proof -
  have v: "hl_version_string demo_http 2 = Returns ''hl/2''" by (simp add: hl_version_string_def demo_http_def)
  have "self_signed_ok demo_rcgen ''h'' []" by (simp add: self_signed_ok_def demo_rcgen_def)
  moreover have "visible_ascii ''h''" "visible_ascii ''k''" by (simp_all add: visible_ascii_def)
  moreover have "hdr_get demo_http [] ''Sec-WebSocket-Protocol'' = None" "hdr_get demo_http [] ''X-HL-Compress'' = None"
    by (simp_all add: demo_http_def)
  ultimately show ?thesis
    using programs_start [where P = demo_http and R = demo_rcgen and major_of = "\<lambda>v. Some 2" and sv = "''2.0.0''" and cv = "''2.0.0''"
        and ms = 2 and mc = 2 and host = "''h''" and key = "''k''" and uri_ok = "\<lambda>u. True" and vs = "''hl/2''" and base = "[]"
        and chain_ok = "\<lambda>roots c. True" and cert = "[]" and dflt = 6 and transport = "demo_transport True ''hl/2''" and listening = True
        and accepts = "\<lambda>r. True" and add = "\<lambda>c. True" and native = None and f = keep_state and L = demo_lib and st = "()"
        and ins = "[] :: (bool \<times> nat client_input) list" and level = 3 and ev = 0 and tn = 1 and bind_ok = True and ch = 5
        and streams = "[''x'']" and n = 7, OF demo_http_law _ _ _ _ _ _ v _ _ _ demo_upgrade_law _ refl refl]
    by auto
qed

end
