(* ===== verification/HL_Tests.thy ===== *)
theory HL_Tests
  imports HL_Setup HL_Loadtest HL_Pet
begin

text \<open>
  The integration tests (\<open>tests/\<close>): a counter whose methods return the new value, once with the
  generated handler (\<open>tests/counter.rs\<close>) and once with a handler written by hand
  (\<open>tests/custom-handler.rs\<close>), the pets of \<open>tests/pet.rs\<close>, and the assertions each test makes on what
  its client gets.
\<close>

section \<open>Assertions on a client's results\<close>

text \<open>\<open>method().await.unwrap()\<close> and \<open>assert_eq!\<close>, call by call; a panic ends the test.\<close>

definition unwrap_result :: "'v handler_result outcome \<Rightarrow> 'v outcome" where
  "unwrap_result r = and_then r (\<lambda>x. case x of Inl e \<Rightarrow> Panics | Inr v \<Rightarrow> Returns v)"

definition assert_eq :: "'v \<Rightarrow> 'v \<Rightarrow> unit outcome" where
  "assert_eq a b = (if a = b then Returns () else Panics)"

fun assert_results :: "'v handler_result outcome list \<Rightarrow> 'v list \<Rightarrow> unit outcome" where
  "assert_results (r # rs) (v # vs) = and_then (unwrap_result r) (\<lambda>x. and_then (assert_eq x v) (\<lambda>_. assert_results rs vs))"
| "assert_results _ _ = Returns ()"


section \<open>The counters\<close>

text \<open>The methods are the same in both files; the state is that of the load test.\<close>

definition test_increment :: "bool \<Rightarrow> u32 \<Rightarrow> (load_state, u32 handler_result) body" where
  "test_increment checks amount s =
     (case word_add checks (load_counter s) amount of
        Panics \<Rightarrow> (s, [], Panics)
      | Returns n \<Rightarrow> (s\<lparr>load_counter := n\<rparr>, [], Returns (Inr n)))"

definition test_decrement :: "bool \<Rightarrow> u32 \<Rightarrow> (load_state, u32 handler_result) body" where
  "test_decrement checks amount s =
     (case word_sub checks (load_counter s) amount of
        Panics \<Rightarrow> (s, [], Panics)
      | Returns n \<Rightarrow> (s\<lparr>load_counter := n\<rparr>, [], Returns (Inr n)))"

definition test_get :: "load_state \<Rightarrow> u32 handler_result outcome" where
  "test_get s = Returns (Inr (load_counter s))"

datatype test_call = TcIncrement u32 | TcDecrement u32 | TcGet

fun test_serves :: "load_libs \<Rightarrow> bool \<Rightarrow> test_call \<Rightarrow> (load_state, u32 handler_result) body" where
  "test_serves K checks (TcIncrement amount) = with_write (load_codecs K) load_fields (test_increment checks amount)"
| "test_serves K checks (TcDecrement amount) = with_write (load_codecs K) load_fields (test_decrement checks amount)"
| "test_serves K checks TcGet = with_read test_get"

text \<open>What goes on with a method's result: the arm of the generated handler, that of the other.\<close>

definition generated_answer :: "'v rkyv \<Rightarrow> 'v handler_result outcome \<Rightarrow> bytes handler_result outcome" where
  "generated_answer R r =
     and_then r (\<lambda>x. case x of Inl e \<Rightarrow> Returns (Inl e) | Inr v \<Rightarrow> and_then (unwrap (to_bytes R v)) (\<lambda>b. Returns (Inr b)))"


text \<open>The end of a generated client method.\<close>

definition client_view :: "'v rkyv \<Rightarrow> bytes handler_result outcome \<Rightarrow> 'v handler_result outcome" where
  "client_view R ans =
     and_then ans (\<lambda>x. Returns (case x of Inl e \<Rightarrow> Inl e
       | Inr b \<Rightarrow> (case from_bytes R b of None \<Rightarrow> Inl ClientDecodeError | Some v \<Rightarrow> Inr v)))"


text \<open>The calls and the values the two tests assert.\<close>

definition counter_test_calls :: "test_call list" where
  "counter_test_calls = [TcIncrement 10, TcDecrement 5, TcGet]"

definition counter_test :: "u32 handler_result outcome list \<Rightarrow> unit outcome" where
  "counter_test rs = assert_results rs [10, 5, 5]"


section \<open>The pets of the test\<close>

record dog =
  dog_name :: string
  dog_age :: u8
  dog_breed :: string

record cat =
  cat_name :: string
  cat_age :: u8
  cat_breed :: string

datatype test_pet = PDog dog | PCat cat

definition dog_new :: "string \<Rightarrow> u8 \<Rightarrow> string \<Rightarrow> dog" where
  "dog_new n a b = \<lparr>dog_name = n, dog_age = a, dog_breed = b\<rparr>"

definition bark :: "dog \<Rightarrow> string" where
  "bark d = ''woof!''"

definition cat_new :: "string \<Rightarrow> u8 \<Rightarrow> string \<Rightarrow> cat" where
  "cat_new n a b = \<lparr>cat_name = n, cat_age = a, cat_breed = b\<rparr>"

definition meow :: "cat \<Rightarrow> string" where
  "meow c = ''meow!''"

definition test_become_dog :: "string \<Rightarrow> u8 \<Rightarrow> string \<Rightarrow> (test_pet option, pet_reply handler_result) body" where
  "test_become_dog n a b s = (Some (PDog (dog_new n a b)), [], Returns (Inr Became))"

definition test_become_cat :: "string \<Rightarrow> u8 \<Rightarrow> string \<Rightarrow> (test_pet option, pet_reply handler_result) body" where
  "test_become_cat n a b s = (Some (PCat (cat_new n a b)), [], Returns (Inr Became))"

definition test_make_a_noise :: "test_pet option \<Rightarrow> pet_reply handler_result outcome" where
  "test_make_a_noise s =
     (case s of
        Some (PDog dog) \<Rightarrow> Returns (Inr (Noise (Some (bark dog))))
      | Some (PCat cat) \<Rightarrow> Returns (Inr (Noise (Some (meow cat))))
      | None \<Rightarrow> Returns (Inr (Noise None)))"

fun test_pet_serves :: "test_pet option rkyv \<Rightarrow> pet_call \<Rightarrow> (test_pet option, pet_reply handler_result) body" where
  "test_pet_serves K (BecomeDog n a b) = with_write [K] (\<lambda>s. [s]) (test_become_dog n a b)"
| "test_pet_serves K (BecomeCat n a b) = with_write [K] (\<lambda>s. [s]) (test_become_cat n a b)"
| "test_pet_serves K MakeANoise = with_read test_make_a_noise"

text \<open>The three tests that need a server: their calls and the results they assert.\<close>

definition pet_tests :: "(pet_call list \<times> pet_reply list) list" where
  "pet_tests =
     [([BecomeDog ''Rex'' 3 ''German Shepherd'', MakeANoise], [Became, Noise (Some ''woof!'')]),
      ([BecomeCat ''Mittens'' 2 ''Tabby'', MakeANoise], [Became, Noise (Some ''meow!'')]),
      ([MakeANoise], [Noise None])]"

text \<open>\<open>client.connect().await.unwrap_err()\<close>: the test without a server.\<close>

definition connect_unwrap_err :: "'e report \<Rightarrow> app_client \<Rightarrow> 'e outcome" where
  "connect_unwrap_err r a = and_then (app_connect r a) (\<lambda>(a', res). case res of Inl e \<Rightarrow> Returns e | Inr u \<Rightarrow> Panics)"

text \<open>The unit tests of \<open>snake_to_pascal_case\<close> in \<open>macros/src/lib.rs\<close>: input and expected output.\<close>

definition snake_tests :: "(string \<times> string) list" where
  "snake_tests = [([], []), (''hello'', ''Hello''), (''world'', ''World''), (''hello_world'', ''HelloWorld''),
     (''foo_bar_baz'', ''FooBarBaz''), (''hello_world_42'', ''HelloWorld42''), (''foo_BAR_baz'', ''FooBarBaz'')]"

section \<open>The services keep their contracts\<close>

lemma test_sends_nothing:
  "sends_nothing (test_increment checks a)" "sends_nothing (test_decrement checks a)"
  "sends_nothing (test_become_dog n y b)" "sends_nothing (test_become_cat n y b)"
  by (simp_all add: sends_nothing_def test_increment_def test_decrement_def test_become_dog_def test_become_cat_def split: outcome.split)

interpretation test_service: guarded_service "load_law K" "load_codecs K" load_fields "test_serves K checks" for K checks
proof unfold_locales
  show "(\<exists>b. sends_nothing b \<and> test_serves K checks c = with_write (load_codecs K) load_fields b)
      \<or> (\<exists>f. test_serves K checks c = with_read f)" for c
    by (cases c) (auto intro: test_sends_nothing)
qed (simp_all add: load_law_def load_codecs_def load_fields_def)

interpretation test_pets: guarded_service "rkyv_law K \<and> (\<forall>p. to_bytes K p \<noteq> None)" "[K]" "\<lambda>s. [s]" "test_pet_serves K" for K
proof unfold_locales
  show "(\<exists>b. sends_nothing b \<and> test_pet_serves K c = with_write [K] (\<lambda>s. [s]) b) \<or> (\<exists>f. test_pet_serves K c = with_read f)" for c
    by (cases c) (auto intro: test_sends_nothing)
qed simp_all

lemmas test_results = test_service.write_sends(2) [OF _ test_sends_nothing(1)] test_service.write_sends(2) [OF _ test_sends_nothing(2)]
  test_pets.write_sends(2) [OF _ test_sends_nothing(3)] test_pets.write_sends(2) [OF _ test_sends_nothing(4)]

text \<open>Each call's result is the new counter, when the arithmetic does not panic.\<close>

fun test_value :: "bool \<Rightarrow> test_call \<Rightarrow> u32 \<Rightarrow> u32 outcome" where
  "test_value checks (TcIncrement a) n = word_add checks n a"
| "test_value checks (TcDecrement a) n = word_sub checks n a"
| "test_value checks TcGet n = Returns n"

lemma test_call_result:
  assumes "load_law K"
  shows "snd (snd (test_serves K checks c s)) = and_then (test_value checks c (load_counter s)) (\<lambda>n. Returns (Inr n))"
    and "fst (test_serves K checks c s) = (case test_value checks c (load_counter s) of Panics \<Rightarrow> s | Returns n \<Rightarrow> \<lparr>load_counter = n\<rparr>)"
  using assms by (cases c; simp add: test_results test_increment_def test_decrement_def test_get_def with_read_def split: outcome.split)+

lemma client_view_generated:
  assumes "load_law K"
  shows "client_view (lt_u32 K) (generated_answer (lt_u32 K) r) = r"
proof (cases r)
  case (Returns x)
  then show ?thesis
  proof (cases x)
    case (Inr n)
    obtain b where "to_bytes (lt_u32 K) n = Some b" "from_bytes (lt_u32 K) b = Some n" using ser_total [OF assms] by blast
    then show ?thesis using Returns Inr by (simp add: client_view_def generated_answer_def)
  qed (simp add: client_view_def generated_answer_def)
qed (simp add: client_view_def generated_answer_def)






section \<open>Properties\<close>

text \<open>
  The tests pass: the counter test's client gets the values it asserts, in debug and release builds,
  as do the three tests of the pets.
\<close>

theorem tests_pass:
  assumes "load_law K" and "rkyv_law KP" and "\<forall>p. to_bytes KP p \<noteq> None"
  shows "counter_test (map (\<lambda>r. client_view (lt_u32 K) (generated_answer (lt_u32 K) r))
      (snd (snd (serve (test_serves K checks) counter_test_calls \<lparr>load_counter = 0\<rparr>)))) = Returns ()
    \<and> (\<forall>(calls, vals) \<in> set pet_tests. assert_results (snd (snd (serve (test_pet_serves KP) calls None))) vals = Returns ())"
proof -
  have "snd (snd (serve (test_serves K checks) counter_test_calls \<lparr>load_counter = 0\<rparr>))
      = [Returns (Inr 10), Returns (Inr 5), Returns (Inr 5)]"
    by (simp add: counter_test_calls_def split_beta Let_def test_call_result [OF assms(1)] word_add_def word_sub_def
        del: test_serves.simps)
  then have "counter_test (map (\<lambda>r. client_view (lt_u32 K) (generated_answer (lt_u32 K) r))
      (snd (snd (serve (test_serves K checks) counter_test_calls \<lparr>load_counter = 0\<rparr>)))) = Returns ()"
    by (simp add: client_view_generated [OF assms(1)] counter_test_def unwrap_result_def assert_eq_def)
  moreover have "\<forall>(calls, vals) \<in> set pet_tests. assert_results (snd (snd (serve (test_pet_serves KP) calls None))) vals = Returns ()"
    using assms(2,3) by (simp add: pet_tests_def split_beta Let_def test_results test_become_dog_def test_become_cat_def
        with_read_def test_make_a_noise_def bark_def meow_def unwrap_result_def assert_eq_def)
  ultimately show ?thesis by blast
qed

text \<open>Without a server the transport fails, and \<open>connect\<close> returns its error.\<close>

theorem unreachable_server_error:
  assumes "http_law P" and "major_of hl_version = Some major" and "visible_ascii host" and "visible_ascii key"
    and "uri_ok (''wss://'' @ host @ ''/'')"
  shows "connect_unwrap_err (report_of n (connect_task P major_of hl_version add native uri_ok key (\<lambda>v req. Inl e) True f L st ins
      (app_new_self_signed host level))) (app_new_self_signed host level) = Returns (Transport e)"
proof -
  obtain vc where vc: "hl_version_string P major = Returns vc" using hl_version_string_eq [OF assms(1)] by blast
  obtain req where "client_request P uri_ok \<lparr>hello_host = host, hello_key = key, hello_version = vc, hello_level = level\<rparr> = Returns req"
    using client_request_Returns [OF assms(1)] assms(3-5) by fastforce
  then have "connect_task P major_of hl_version add native uri_ok key (\<lambda>v req. Inl e) True f L st ins (app_new_self_signed host level)
      = Returns (Inl (Transport e))"
    using vc assms(2) by (simp add: connect_task_def app_verifier_def app_new_self_signed_def runtime_new_self_signed_def
        new_with_config_def client_connect_def client_check_def)
  then show ?thesis by (simp add: connect_unwrap_err_def report_of_def app_connect_def)
qed

text \<open>All unit tests of the case conversion pass but the one with capitals in the input.\<close>

theorem snake_tests_results:
  "filter (\<lambda>(s, expected). snake_to_pascal_case s \<noteq> expected) snake_tests = [(''foo_BAR_baz'', ''FooBarBaz'')]"
  by code_simp






end
