(* ===== verification/Spec2Isabelle.thy ===== *)
theory Spec2Isabelle
  imports HL_State HL_Switch HL_System HL_Pubsub HL_Server HL_AppClient HL_Macro HL_Expand HL_Tls
    HL_CounterApp HL_Todo HL_Pet HL_Loadrun HL_Setup HL_Tests
begin

text \<open>
  HardLight (\<open>src/\<close> and \<open>macros/\<close> of the repository) is an RPC, state-synchronisation and event
  framework over TLS WebSockets. This development models its core, the programs of \<open>examples/\<close>, the
  load test of \<open>testing-project/\<close> and the tests of \<open>tests/\<close>, and proves what makes them correct.

  \<^bold>\<open>The program.\<close> A server accepts connections and starts one connection handler each
  (\<open>src/server.rs\<close>). After a handshake that fixes version and compression, the handler's loop
  serves RPC requests by starting handler tasks, forwards their responses, state updates and events
  to the client, and tells the event switch which topics the connection wants. The switch routes
  events to connections and announces topics to the application. The client runtime
  (\<open>src/client.rs\<close>) multiplexes the application's calls over 256 identifiers and applies state
  updates. Procedural macros (\<open>macros/src/lib.rs\<close>) generate the typed layer: a call enum with the
  server's dispatch and the client's methods, connection state whose changes are sent when a write
  guard is dropped, and codable types. Messages are rkyv archives compressed with flate2
  (\<open>src/wire.rs\<close>, \<open>src/lib.rs\<close>). The examples are services written on this layer: a counter that
  announces its changes on a topic, a to-do list, a pet; the load test writes its handler by hand,
  collects timings from many clients and computes statistics and charts from them.

  \<^bold>\<open>How it is modelled.\<close> Loops are functions on a state record: each branch of a \<open>select!\<close> is
  one definition, which takes what the branch received and returns the new state and the effects it
  had (bytes written, notifications sent, tasks started, calls completed). Panics are the value
  \<open>Panics\<close> of type \<open>outcome\<close>; recoverable errors are sums and options as in the code. What the
  code leaves to others is an argument: rkyv and flate2 (records of functions with round-trip laws
  \<open>rkyv_law\<close>, \<open>flate_law\<close>), the http crate (\<open>http_law\<close>), the order in which a hash map is
  iterated (\<open>iter_law\<close>), floating-point operations, rcgen, rustls and the transport between
  them (\<open>self_signed_ok\<close>, \<open>upgrade_law\<close>: it answers as the server's callback does while the server
  listens, and fails otherwise), what a channel delivers (\<open>channel_law\<close>), whether a send or a worker
  thread succeeds, random bytes (where connections share the
  switch, an identifier drawn for a topic is new there: \<open>fresh_id\<close>), and the answers of TLS and tungstenite. Concurrency is a step relation: tasks, channels and frames in transit are
  multisets or queues from which any step may take. Identifiers are 8-bit words; hash maps whose
  size or iteration matters are association lists with distinct keys. Integers keep their width: an
  operator takes a flag that says whether overflow is checked (debug builds, a panic) or wraps around
  (release builds).

  \<^bold>\<open>The theories.\<close>
  \<^item> \<open>HL_Prelude\<close>: machine types, \<open>outcome\<close>, \<open>Iterator::position\<close>, slot tables, hash maps, checked
    and wrapping arithmetic, reachability with the locales \<open>invariant_system\<close> and \<open>simulation\<close>.
  \<^item> \<open>HL_Utf8\<close>, \<open>HL_Decimal\<close>: the standard library's UTF-8 and decimal conversions with round trips.
  \<^item> \<open>HL_Wire\<close>: messages, errors, topics, events, notifications; \<open>Topic\<close>'s conversions.
  \<^item> \<open>HL_Codec\<close>: \<open>inflate\<close>, \<open>deflate\<close>, \<open>ser\<close>, \<open>de\<close>, \<open>codable\<close>, the message pipelines;
    \<open>HL_Demo\<close>: a concrete lawful instance of the libraries, on which witnesses evaluate.
  \<^item> \<open>HL_State\<close>: \<open>connection_state\<close>: controller, guard, drop, \<open>apply_changes\<close>; the locale
    \<open>client_state\<close> is the contract the client runtime relies on.
  \<^item> \<open>HL_Switch\<close>: \<open>EventSwitch\<close>; the locale \<open>topic_registry\<close> is the contract connections rely on,
    and an abstract registry is refined by the nested hash maps.
  \<^item> \<open>HL_Connection\<close>: the connection handler's loop, \<open>send_msg\<close>, and the loop with its handler tasks.
  \<^item> \<open>HL_Client\<close>: the loop of \<open>Client::connect\<close>.
  \<^item> \<open>HL_System\<close>: client, network and connection together, refining an abstract protocol in which a
    call is a token; frames may be lost and reordered.
  \<^item> \<open>HL_Pubsub\<close>: \<open>EventEmitter\<close>, \<open>HandlerSubscriptionManager\<close>, any number of connections and the
    switch, joined by their channels.
  \<^item> \<open>HL_Handshake\<close>: the upgrade request, the server's callback, the client's check.
  \<^item> \<open>HL_Server\<close>: \<open>ServerConfig\<close>, \<open>Server\<close>, its accept loop, a connection up to its loop.
  \<^item> \<open>HL_AppClient\<close>: construction and \<open>connect\<close> of the runtime, the generated application client.
  \<^item> \<open>HL_Macro\<close>: \<open>snake_to_pascal_case\<close>, the parts the \<open>rpc\<close> macro generates and how they run.
  \<^item> \<open>HL_Expand\<close>: the items the attribute macros add to a module, and \<open>factory!\<close>.
  \<^item> \<open>HL_Tls\<close>: \<open>ServerConfig::new_self_signed\<close> and the certificate policies of the client.
  \<^item> \<open>HL_Service\<close>: a service method between taking and dropping a guard; the locales \<open>state_service\<close>
    (what a service promises about its client's copy) and \<open>guarded_service\<close> (its parts), interpreted
    on the four services below.
  \<^item> \<open>HL_Node\<close>: a server with a service: the service's state of every connection beside the hub of
    \<open>HL_Pubsub\<close>, joined by its channels; the locale \<open>topic_service\<close> is the contract of a service that
    subscribes its connections to topics, interpreted on the four services below.
  \<^item> \<open>HL_Counter\<close>, \<open>HL_Todo\<close>, \<open>HL_Pet\<close>: the services of \<open>examples/\<close> with their clients' scripts;
    \<open>HL_CounterApp\<close>: the counter's notifier and subscription tasks.
  \<^item> \<open>HL_Loadtest\<close>: the load test's handler, collection of timings, statistics and chart data;
    \<open>HL_Loadrun\<close>: a whole run with its clients and tasks.
  \<^item> \<open>HL_Setup\<close>: how the programs start a server and a client, from the certificate to the loops.
  \<^item> \<open>HL_Tests\<close>: the services, handlers, calls and assertions of \<open>tests/\<close>.
  \<^item> this theory: typed calls, state changes and events between the server's application and the client's.

  \<^bold>\<open>What is shown.\<close> RPC: answers are never mixed up, each call is answered at most once and is
  otherwise still waiting, the server never ignores a request of this client, and a request on its
  way can be answered (\<open>HL_System\<close>); no client can panic a connection handler or start two handlers
  for one identifier (\<open>HL_Connection\<close>); the client accounts for every call (\<open>HL_Client\<close>); a
  generated client method returns what the server's method returned (\<open>HL_Macro\<close>), also through the
  whole system (here). State: a client
  that receives the batches in order follows the server's state, end to end; batches of different
  fields commute, and reordered batches leave a field both changed at the older value (\<open>HL_State\<close>, here). Events: the registry of
  the switch is what the connections believe, an event reaches exactly the subscribed connections
  once and in order, and topic announcements alternate while sends succeed (\<open>HL_Switch\<close>,
  \<open>HL_Pubsub\<close>). Handshake and set-up: peers agree exactly on equal versions, levels are at most 9,
  connections start clean, a client connects to a server that listens with the same major version and
  panics otherwise, and its handles are those of the last connection
  (\<open>HL_Handshake\<close>, \<open>HL_Server\<close>, \<open>HL_AppClient\<close>, \<open>HL_Setup\<close>). Some properties state how
  the code departs from its documentation: crashed handlers, dead subscribers, reordered batches,
  calls after a disconnection, a version mismatch that only changes the status.

  Services: the counter refines integers up to the range of its type, its connection is subscribed
  exactly to its current topic, and the client's wait for the topic ends (\<open>HL_Counter\<close>); a change of a
  counter reaches, once the notifications are handled, exactly the clients with its topic, and the log
  of a subscribed client is the history of its counter between the events of others on its topic
  (\<open>HL_Node\<close>, \<open>HL_CounterApp\<close>, here); the to-do
  list refines a map and hands out fresh identifiers (\<open>HL_Todo\<close>); the load test's handler serves the
  generated client, its statistics, percentiles and histogram are characterised completely, with
  the inputs on which a debug build panics, and the program's own numbers stay in range
  (\<open>HL_Loadtest\<close>, \<open>HL_Loadrun\<close>); the assertions of the tests hold, those of the hand-written handler
  under a condition on archives (\<open>HL_Tests\<close>); a module with annotated items fits
  together only under the names the macros assume (\<open>HL_Expand\<close>).

  \<^bold>\<open>Bounds.\<close> The statistics are exact for fewer than \<open>2^31\<close> timings below \<open>2^48\<close> microseconds; the
  program makes at most ten million, which is proved. The one loop that may run for ever, the client's wait for its topic, is
  a partial function whose result is proved to exist. Other loops are modelled by recursion over the
  list of their inputs, of any length, so no fuel is used; the decoders terminate by measures. The table sizes (256) are those of the code.

  \<^bold>\<open>Not modelled.\<close> The socket, and rustls and rcgen behind their parameters; logging, except where a
  log line unwraps; fairness of the scheduler; the token level of the macros; drawing with plotters,
  progress bars and the percentages the load test prints; what a tokio channel does inside (the
  results of receiving are inputs); the rate limits of \<open>src/server.rs\<close>, which are commented out.
\<close>

section \<open>State changes and events, end to end\<close>

text \<open>
  C3: a connection's state on the client follows the server's. The batches of any sequence of
  writes, each sent by the connection handler as a frame and received by the client in that order,
  bring the client's state to the server's current state, with no effect on its calls.
\<close>

theorem client_state_follows_server:
  assumes "hl_lib_law L" and "list_all rkyv_law cs" and "\<forall>s \<in> set ss. length s = length cs"
    and "run_writes cs (controller_new s0) ss = Returns (ctl, batches)"
    and "list_all2 (\<lambda>us b. \<exists>env c c'. conn_step L env (StateChanges us) c = Returns (c', [WsSend b])) batches frames"
    and "client_inv cl" and "cl_state cl = s0" and "length s0 = length cs"
  shows "client_loop (apply_changes cs) L (map (\<lambda>b. (True, FromServer (WsBinary b))) frames) cl
    = Returns (Continue, cl\<lparr>cl_state := controller_read ctl\<rparr>, [])"
proof -
  have sent: "decode_server_frame L (WsBinary b) = Some (StateChange us)"
    if "conn_step L env (StateChanges us) c = Returns (c', [WsSend b])" for env c c' us b
    using that decode_sent_server [OF assms(1)] by (auto simp: send_msg_def split: if_splits option.splits)
  have "list_all2 (\<lambda>p us. decode_server_frame L (snd p) = Some (StateChange us))
      (map (\<lambda>b. (True, WsBinary b)) frames) batches"
    using assms(5) sent by (auto simp: list_all2_conv_all_nth)
  moreover have "apply_changes cs (cl_state cl) (concat batches) = (ctl_state ctl, Inr ())"
    using run_writes_apply [OF assms(2) _ _ assms(4)] assms(3,7,8) by (simp add: controller_new_def)
  ultimately have "client_loop (apply_changes cs) L
      (map (\<lambda>(ok, m). (ok, FromServer m)) (map (\<lambda>b. (True, WsBinary b)) frames)) cl
      = Returns (Continue, cl\<lparr>cl_state := ctl_state ctl\<rparr>, [])"
    by (intro generated_state.client_loop_state_changes [OF _ assms(6)])
  then show ?thesis by (simp add: controller_read_def comp_def)
qed

theorem client_state_follows_server_witness:
  "client_loop (apply_changes [byte_rkyv]) demo_lib [(True, FromServer (WsBinary [1, 3, 0, 1, 8]))]
     (client_new [0] 6 :: (nat, u8 list) client)
   = Returns (Continue, (client_new [0] 6)\<lparr>cl_state := [8]\<rparr>, [])"
proof -
  have w: "run_writes [byte_rkyv] (controller_new [0]) [[8]] = Returns (\<lparr>ctl_state = [8]\<rparr>, [[\<lparr>index = 0, data = [8]\<rparr>]])"
    by (simp add: guard_drop_def guard_deref_mut_def controller_write_def controller_new_def byte_rkyv_def)
  have "conn_step demo_lib env_ok (StateChanges [\<lparr>index = 0, data = [8]\<rparr>]) (conn_new 6 0)
      = Returns (conn_new 6 0, [WsSend [1, 3, 0, 1, 8]])"
    by (simp add: send_msg_def env_ok_def)
  then show ?thesis
    using client_state_follows_server [OF demo_lib_law _ _ w, of "[[1, 3, 0, 1, 8]]"
        "client_new [0] 6 :: (nat, u8 list) client"]
    by (auto simp: byte_rkyv_law client_new_def client_inv_def controller_read_def)
qed

text \<open>
  An event the connection handler sends is broadcast to the application of the client with its
  topic and payload unchanged, and touches neither the client's calls nor its state.
\<close>

theorem event_reaches_application:
  assumes "hl_lib_law L" and "client_inv cl"
    and "conn_step L env (EventIn ev) c = Returns (c', [WsSend b])"
  shows "client_step f L ok (FromServer (WsBinary b)) cl = Returns (Continue, cl, [Broadcast ev])"
proof -
  have "decode_server_frame L (WsBinary b) = Some (NewEvent (ev_topic ev) (ev_payload ev))"
    using assms(3) decode_sent_server [OF assms(1)] by (auto simp: send_msg_def split: if_splits option.splits)
  then show ?thesis using assms(2) by (simp add: step_defs)
qed

theorem event_reaches_application_witness:
  "client_step keep_state demo_lib True (FromServer (WsBinary [1, 2, 0, 1, 7, 1])) (client_new () 6 :: (nat, unit) client)
   = Returns (Continue, client_new () 6, [Broadcast example_event])"
proof -
  have "conn_step demo_lib env_ok (EventIn example_event) (conn_new 6 0)
      = Returns (conn_new 6 0, [WsSend [1, 2, 0, 1, 7, 1]])"
    by (simp add: send_msg_def env_ok_def example_event_def example_topic_def)
  from event_reaches_application [OF demo_lib_law client_inv_new this] show ?thesis .
qed

section \<open>Typed calls, end to end\<close>

text \<open>
  C6: a typed call through the whole system. Client, network and connection handler run in any
  interleaving, frames may be lost and reordered, and the service behind the generated handler may
  behave differently at every call (\<open>Impls\<close>: what its methods return in the states it may be in).
  When a call submitted by a generated client method is answered, the method returns what the
  service's method of that name returned for these very arguments in one of its states, or one of
  the client's own errors. Every method has its own type of results, with its own serializer.
\<close>

theorem typed_call_answered:
  assumes "hl_lib_law L" and "rkyv_law C" and "rkyv_law (R (sig_ident m))"
    and "\<forall>impl \<in> Impls. \<forall>v. impl (sig_ident m) args = Inr v \<longrightarrow> to_bytes (R (sig_ident m)) v \<noteq> None"
    and "well_named items" and "MethodItem m \<in> set items" and "length args = length (params m)"
    and "cm = (sig_ident m, snake_to_pascal_case (sig_ident m), List.map_filter typed_pat (sig_inputs m))"
    and "to_bytes C (build_call cm args) = Some b" and "app_rpc_tx a \<noteq> None"
    and "H = (\<lambda>internal res. \<exists>impl \<in> Impls. handle_rpc_call C R items impl internal = Returns res)"
    and "sys_reach f L H (sys_new dflt clevel slevel etx) s"
    and "(tx, b) \<in> submitted s" and "(tx, res) \<in># answered s"
  shows "\<exists>v. client_method C R True (Some res) cm args a = Returns v
    \<and> ((\<exists>impl \<in> Impls. v = impl (sig_ident m) args) \<or> v \<in> Inl ` local_errors)"
proof -
  consider impl where "impl \<in> Impls" "handle_rpc_call C R items impl b = Returns res" | e where "e \<in> local_errors" "res = Inl e"
    using answers_allowed [OF assms(1,12-14)] assms(11) by auto
  then show ?thesis
  proof cases
    case 1
    then show ?thesis
      using method_round_trip [where R = R and m = m and impl = impl and args = args, OF assms(2,3) _ assms(5-10)] assms(4) by auto
  next
    case 2
    obtain n where "app_rpc_tx a = Some n" using assms(10) by blast
    then have "client_method C R True (Some res) cm args a = Returns (Inl e)"
      using 2 assms(9) by (simp add: client_method_def make_rpc_call_def)
    then show ?thesis using 2 by blast
  qed
qed

text \<open>A call of the example trait whose request is \<open>[42]\<close>, and the methods behind its handler.\<close>

definition add_call_rkyv :: "u8 rpc_call rkyv" where
  "add_call_rkyv = \<lparr>to_bytes = (\<lambda>c. if c = RpcCall ''AddN'' [(''n'', 3), (''m'', 4)] then Some [42] else None),
     from_bytes = (\<lambda>b. if b = [42] then Some (RpcCall ''AddN'' [(''n'', 3), (''m'', 4)]) else None)\<rparr>"

definition add_methods :: "string \<Rightarrow> u8 list \<Rightarrow> u8 handler_result" where
  "add_methods name args = Inr (args ! 0 + 2 * args ! 1)"

definition add_handler :: "bytes \<Rightarrow> bytes handler_result \<Rightarrow> bool" where
  "add_handler = (\<lambda>internal res. \<exists>impl \<in> {add_methods}. handle_rpc_call add_call_rkyv (\<lambda>name. byte_rkyv) example_trait impl internal = Returns res)"

lemma add_handler_answers: "add_handler [42] (Inr [11])"
  by (simp add: add_handler_def handle_rpc_call_def add_call_rkyv_def add_methods_def byte_rkyv_def dispatch_def
      server_methods_def example_trait_def example_names load_names List.map_filter_simps)

theorem typed_call_answered_witness:
  "\<exists>s. sys_reach keep_state demo_lib add_handler (sys_new () 6 6 0) s \<and> (7 :: nat, Inr [11]) \<in># answered s
    \<and> client_method add_call_rkyv (\<lambda>name. byte_rkyv) True (Some (Inr [11])) (''add_n'', ''AddN'', [PatIdent ''n'', PatIdent ''m'']) [3, 4]
        ((app_new ''h'' 6)\<lparr>app_rpc_tx := Some 0\<rparr>) \<in> {Returns (Inr 11)} \<union> (\<lambda>e. Returns (Inl e)) ` local_errors"
proof -
  have enc: "encode_server_message demo_lib (compression (srv_conn (s_srv example_sys))) (RPCResponse 0 (Inr [11]))
      = Some [1, 0, 0, 11]" by simp
  obtain s where s: "sys_reach keep_state demo_lib add_handler example_sys s"
      "answered s = add_mset (7, Inr [11]) (answered example_sys)" "submitted s = submitted example_sys"
    using answer_run [OF demo_lib_law _ _ _ _ _ _ enc, of add_handler "[1, 0, 42]" "[42]" 7 keep_state]
      sys_reach_simulates [OF demo_lib_law example_sys_reach [where H = add_handler]] add_handler_answers by auto
  have r: "sys_reach keep_state demo_lib add_handler (sys_new () 6 6 0) s"
    using sys_reach_trans [OF s(1) example_sys_reach] .
  have "rkyv_law add_call_rkyv" by (auto simp: lib_laws add_call_rkyv_def)
  moreover have "\<forall>v. to_bytes byte_rkyv v \<noteq> None" by (simp add: byte_rkyv_def)
  ultimately have "\<exists>v. client_method add_call_rkyv (\<lambda>name. byte_rkyv) True (Some (Inr [11])) (''add_n'', ''AddN'', [PatIdent ''n'', PatIdent ''m'']) [3, 4]
        ((app_new ''h'' 6)\<lparr>app_rpc_tx := Some 0\<rparr>) = Returns v
      \<and> ((\<exists>impl \<in> {add_methods}. v = impl ''add_n'' [3, 4]) \<or> v \<in> Inl ` local_errors)"
    using typed_call_answered [OF demo_lib_law _ _ _ example_well_named,
        where C = add_call_rkyv and R = "\<lambda>name. byte_rkyv" and m = "\<lparr>sig_ident = ''add_n'',
          sig_inputs = [Receiver, Typed (PatIdent ''n'') ''u8'', Typed (PatIdent ''m'') ''u8'']\<rparr>" and args = "[3, 4]"
        and cm = "(''add_n'', ''AddN'', [PatIdent ''n'', PatIdent ''m''])" and b = "[42]" and tx = 7 and res = "Inr [11]"
        and a = "(app_new ''h'' 6)\<lparr>app_rpc_tx := Some 0\<rparr>" and Impls = "{add_methods}", OF _ _ _ _ _ _ _ _ add_handler_def r] s(2,3)
    by (simp add: byte_rkyv_law example_trait_def example_names params_def build_call_def add_call_rkyv_def List.map_filter_simps)
  then show ?thesis using r s(2) by (auto simp: add_methods_def)
qed

section \<open>A service, end to end\<close>

text \<open>
  C8: a change of a counter reaches the clients. In any reachable state of the server, with any
  number of connections and interleaving, a call that changes a counter emits one event. When the
  switch takes it, at any later moment at which no notification is queued at the switch, it delivers
  it to every connection that has handled its own notifications by then: once if the counter of that
  connection has the same topic, and not at all otherwise. The frame a connection handler sends for
  it is broadcast to the application of its client, which decodes the new and the old value.
\<close>

theorem counter_change_reaches_clients:
  assumes "hl_lib_law L" and "iter_law iter" and "counter_law K"
    and "node_reach L iter (counter_serves K checks True) (node_new level counter_default) n"
    and "counter_serves K checks True c (nd_state n i) = (s', out, r)" and "r \<noteq> Panics"
    and "announced_change c (counter s') (counter (nd_state n i)) = Some change"
  shows "\<exists>ev. emitted out = [ev] \<and> receive_event K ev = Returns (ctopic s', change)
    \<and> (\<forall>m j sw' outs. node_reach L iter (counter_serves K checks True) n m \<longrightarrow>
        hub_queue (nd_hub m) = [] \<longrightarrow> hub_proxied (nd_hub m) j = [] \<longrightarrow>
        switch_step iter (\<lambda>k. True) (SwEvent ev) (hub_switch (nd_hub m)) = (sw', outs) \<longrightarrow>
        deliveries_to j outs = (if ctopic s' \<in> counter_topics (nd_state m j) then [ev] else []))
    \<and> (\<forall>env c c' b ok cl. conn_step L env (EventIn ev) c = Returns (c', [WsSend b]) \<longrightarrow>
        client_inv cl \<longrightarrow> client_step f L ok (FromServer (WsBinary b)) cl = Returns (Continue, cl, [Broadcast ev]))"
proof -
  have "map (receive_event K) (emitted out) = [Returns (ctopic s', change)]"
    using counter_call_refines [OF assms(3,5)] assms(6,7) by simp
  then obtain ev where ev: "emitted out = [ev]" "receive_event K ev = Returns (ctopic s', change)" by auto
  have "deliveries_to j outs = (if ctopic s' \<in> counter_topics (nd_state m j) then [ev] else [])"
    if "node_reach L iter (counter_serves K checks True) n m" "hub_queue (nd_hub m) = []" "hub_proxied (nd_hub m) j = []"
      "switch_step iter (\<lambda>k. True) (SwEvent ev) (hub_switch (nd_hub m)) = (sw', outs)" for m j sw' outs
    using counter_node.event_to_wanting [OF assms(2) node_reach_trans [OF assms(4) that(1)] counter_topics_default that(2-4)]
      receive_event_topic [OF ev(2)] by simp
  then show ?thesis using ev event_reaches_application [OF assms(1)] by blast
qed

theorem counter_change_reaches_clients_witness:
  "\<exists>ev sw' outs. receive_event demo_counter ev = Returns (example_topic, Incremented 5 0)
    \<and> switch_step rev (\<lambda>k. True) (SwEvent ev) (hub_switch (nd_hub example_node)) = (sw', outs)
    \<and> deliveries_to 3 outs = [ev] \<and> deliveries_to 4 outs = []"
proof -
  let ?s = "nd_state example_node 3"
  obtain s' out r where c: "counter_serves demo_counter False True (Increment 5) ?s = (s', out, r)"
    by (cases "counter_serves demo_counter False True (Increment 5) ?s")
  have "counter s' = 5" "ctopic s' = example_topic" "r \<noteq> Panics"
    using arg_cong [OF c, of fst] arg_cong [OF c, of "\<lambda>x. snd (snd x)"] counter_call_refines [OF demo_counter_law c]
    by (auto simp: example_node_def increment_def word_add_def publish_state)
  moreover have "hub_queue (nd_hub example_node) = []" "\<And>k. hub_proxied (nd_hub example_node) k = []"
    "counter_topics (nd_state example_node 3) = {example_topic}" "counter_topics (nd_state example_node 4) = {}"
    by (simp_all add: example_node_def example_hub_def hub_new_def counter_topics_def counter_default_def
        example_topic_def topic_default_def)
  moreover have "counter ?s = 0" by (simp add: example_node_def)
  moreover have "announced_change (Increment 5) 5 0 = Some (Incremented 5 0)" by simp
  ultimately have "\<exists>ev. receive_event demo_counter ev = Returns (example_topic, Incremented 5 0)
    \<and> (\<forall>j sw' outs. switch_step rev (\<lambda>k. True) (SwEvent ev) (hub_switch (nd_hub example_node)) = (sw', outs) \<longrightarrow>
      deliveries_to j outs = (if example_topic \<in> counter_topics (nd_state example_node j) then [ev] else []))"
    using counter_change_reaches_clients [OF demo_lib_law iter_law_rev demo_counter_law example_node_reach c, of "Incremented 5 0"]
      node_reach_refl by metis
  then show ?thesis
    using \<open>counter_topics (nd_state example_node 3) = {example_topic}\<close> \<open>counter_topics (nd_state example_node 4) = {}\<close>
    by (metis empty_iff insertI1 surj_pair)
qed

text \<open>The frames of a list of events are broadcast as these events, in order.\<close>

lemma client_loop_events:
  assumes "hl_lib_law L"
    and "list_all2 (\<lambda>ev b. \<exists>env c c'. conn_step L env (EventIn ev) c = Returns (c', [WsSend b])) evs frames"
    and "client_inv cl"
  shows "client_loop f L (map (\<lambda>b. (True, FromServer (WsBinary b))) frames) cl = Returns (Continue, cl, map Broadcast evs)"
  using assms(2)
proof (induction rule: list_all2_induct)
  case (Cons ev evs b frames)
  then have "client_step f L True (FromServer (WsBinary b)) cl = Returns (Continue, cl, [Broadcast ev])"
    using event_reaches_application [OF assms(1,3)] by blast
  then show ?case using Cons by simp
qed simp

text \<open>
  C19: the client's log is the history of its counter. The client has a counter, and the switch and
  its connection have handled their notifications. Then come any calls but \<open>new_counter\<close>; the switch takes
  the events they emit in order between any events of others (the notifier's test events, changes of
  counters on the same topic, other topics) and any notifications of other connections; the client's
  connection stays alive, sends what it is given, and the client receives the frames in order. Its task
  logs the exact sequence of changes of an integer counter, in order, between the lines of the others on
  that topic, and does not panic; a receiver that falls behind ends the task, which has logged a prefix and
  logs nothing more.
\<close>

theorem subscription_log_is_history:
  assumes "hl_lib_law L" and "iter_law iter" and "counter_law K"
    and "node_reach L iter (counter_serves K checks True) (node_new level counter_default) n"
    and "hub_queue (nd_hub n) = []" and "hub_proxied (nd_hub n) k = []"
    and "s = nd_state n k" and "ctopic s \<noteq> topic_default" and "\<forall>c \<in> set calls. \<not> is_new c"
    and "serve (counter_serves K checks True) calls s = (s', out, rs)"
    and "\<forall>p \<in> set ins. fst p k" and "\<forall>x \<in> set (notifications ins). foreign (hub_switch (nd_hub n)) k x"
    and "events_of ins \<in> shuffles (emitted out) others"
    and "map (receive_event K) (filter (\<lambda>ev. ev_topic ev = ctopic s) others) = map Returns other_lines"
    and "list_all2 (\<lambda>ev b. \<exists>env c c'. conn_step L env (EventIn ev) c = Returns (c', [WsSend b]))
      (deliveries_to k (snd (switch_run iter ins (hub_switch (nd_hub n))))) frames"
    and "client_inv cl"
  shows "\<exists>evs log. client_loop f L (map (\<lambda>b. (True, FromServer (WsBinary b))) frames) cl = Returns (Continue, cl, map Broadcast evs)
    \<and> log \<in> shuffles (change_log checks calls (ctopic s) (uint (counter s))) other_lines
    \<and> subscription_loop K (map Some evs) = (log, Returns ())
    \<and> (\<forall>m rest. subscription_loop K (map Some (take m evs) @ None # rest) = (take m log, Returns ()))"
proof -
  let ?evs = "filter (\<lambda>ev. ev_topic ev = ctopic s) (events_of ins)"
  have "deliveries_to k (snd (switch_run iter ins (hub_switch (nd_hub n)))) = ?evs"
    using counter_node.events_to_wanting [OF assms(2,4) counter_topics_default assms(5,6,11,12)] assms(7,8)
    by (simp add: counter_topics_def)
  with assms(15) have c: "client_loop f L (map (\<lambda>b. (True, FromServer (WsBinary b))) frames) cl
      = Returns (Continue, cl, map Broadcast ?evs)" by (intro client_loop_events [OF assms(1) _ assms(16)]) simp
  have "filter (\<lambda>ev. ev_topic ev = ctopic s) (emitted out) = emitted out"
    using serve_emitted_topics [OF assms(3,10,9)] by (simp add: filter_id_conv)
  moreover have "?evs \<in> shuffles (filter (\<lambda>ev. ev_topic ev = ctopic s) (emitted out)) (filter (\<lambda>ev. ev_topic ev = ctopic s) others)"
    using assms(13) by (metis filter_shuffles imageI)
  ultimately have sh: "?evs \<in> shuffles (emitted out) (filter (\<lambda>ev. ev_topic ev = ctopic s) others)" by simp
  show ?thesis by (rule subscription_loop_shuffle [OF sh serve_change_log [OF assms(3,10)] assms(14)]) (use c in blast)
qed

theorem subscription_log_is_history_witness:
  "\<exists>evs log. client_loop keep_state demo_lib
      [(True, FromServer (WsBinary [1, 2, 0, 1, 7, 2])),
       (True, FromServer (WsBinary ([1, 2, 0, 1, 7] @ put_counter_event (Incremented 5 0))))] (client_new () 6 :: (nat, unit) client)
      = Returns (Continue, client_new () 6, map Broadcast evs)
    \<and> subscription_loop demo_counter (map Some evs) = (log, Returns ())
    \<and> log \<in> shuffles [(example_topic, Incremented 5 0)] [(example_topic, ServerSentTest)]"
proof -
  let ?s = "nd_state example_node 3" and ?test = "\<lparr>ev_topic = example_topic, ev_payload = [2]\<rparr>"
    and ?ev = "\<lparr>ev_topic = example_topic, ev_payload = put_counter_event (Incremented 5 0)\<rparr>"
  let ?ins = "[(\<lambda>k. True, SwEvent ?test), (\<lambda>k. True, SwEvent ?ev)]"
  have s: "?s = \<lparr>counter = 0, ctopic = example_topic\<rparr>" by (simp add: example_node_def)
  obtain s' out rs where c: "serve (counter_serves demo_counter False True) [Increment 5] ?s = (s', out, rs)"
    by (cases "serve (counter_serves demo_counter False True) [Increment 5] ?s")
  have out: "emitted out = [?ev]"
    using arg_cong [OF c, of "\<lambda>x. emitted (fst (snd x))"] unfolding s
    by (simp add: split_beta increment_def word_add_def publish_def codable_into_def demo_counter_def emit_def event_new_def Let_def)
  have sent: "deliveries_to 3 (snd (switch_run rev ?ins (hub_switch (nd_hub example_node)))) = [?test, ?ev]"
    by (simp add: example_node_def example_hub_def switch_event_def)
  have frames: "conn_step demo_lib env_ok (EventIn ?test) (conn_new 6 3) = Returns (conn_new 6 3, [WsSend [1, 2, 0, 1, 7, 2]])"
    "conn_step demo_lib env_ok (EventIn ?ev) (conn_new 6 3)
      = Returns (conn_new 6 3, [WsSend ([1, 2, 0, 1, 7] @ put_counter_event (Incremented 5 0))])"
    by (simp_all add: send_msg_def env_ok_def example_topic_def del: put_counter_event.simps)
  have "\<exists>evs log. client_loop keep_state demo_lib (map (\<lambda>b. (True, FromServer (WsBinary b)))
      [[1, 2, 0, 1, 7, 2], [1, 2, 0, 1, 7] @ put_counter_event (Incremented 5 0)]) (client_new () 6 :: (nat, unit) client)
      = Returns (Continue, client_new () 6, map Broadcast evs)
    \<and> log \<in> shuffles (change_log False [Increment 5] (ctopic ?s) (uint (counter ?s))) [(example_topic, ServerSentTest)]
    \<and> subscription_loop demo_counter (map Some evs) = (log, Returns ())
    \<and> (\<forall>m rest. subscription_loop demo_counter (map Some (take m evs) @ None # rest) = (take m log, Returns ()))"
    by (rule subscription_log_is_history [where ins = ?ins and others = "[?test]",
        OF demo_lib_law iter_law_rev demo_counter_law example_node_reach _ _ refl _ _ c])
      (use out sent frames in \<open>auto simp: s example_node_def example_hub_def hub_new_def receive_event_def
        codable_from_def demo_counter_def example_topic_def topic_default_def\<close>)
  moreover have "change_log False [Increment 5] (ctopic ?s) (uint (counter ?s)) = [(example_topic, Incremented 5 0)]"
    by (simp add: s)
  ultimately show ?thesis by auto
qed

end
